theory Spec2Isabelle
  imports Main
begin

section \<open>Python strings\<close>

text \<open>
  Text is modelled as Isabelle strings (lists of 8-bit characters), which covers the ASCII
  addresses, paths and command output the deployer handles. The helpers below follow the
  Python string methods the source calls.
\<close>

definition startswith :: "string \<Rightarrow> string \<Rightarrow> bool" where
  "startswith s p = (take (length p) s = p)"

definition endswith :: "string \<Rightarrow> string \<Rightarrow> bool" where
  "endswith s p = (length p \<le> length s \<and> drop (length s - length p) s = p)"

text \<open>\<open>str.isspace\<close> on an ASCII character: tab, line feed, vertical tab, form feed,
  carriage return, the four separators 0x1C..0x1F and the space.\<close>

definition is_space :: "char \<Rightarrow> bool" where
  "is_space c = (c \<in> {CHR 0x09, CHR 0x0A, CHR 0x0B, CHR 0x0C, CHR 0x0D,
                        CHR 0x1C, CHR 0x1D, CHR 0x1E, CHR 0x1F, CHR 0x20})"

definition strip :: "string \<Rightarrow> string" where
  "strip s = rev (dropWhile is_space (rev (dropWhile is_space s)))"

text \<open>Splitting at every character that satisfies \<open>P\<close>; empty pieces are kept.
  \<open>s.split(c)\<close> for a one-character separator splits at every occurrence of it.\<close>

fun split_where :: "(char \<Rightarrow> bool) \<Rightarrow> string \<Rightarrow> string list" where
  "split_where P [] = [[]]"
| "split_where P (x # xs) =
     (if P x then [] # split_where P xs
      else (case split_where P xs of
              [] \<Rightarrow> [[x]]
            | l # ls \<Rightarrow> (x # l) # ls))"

definition split_on :: "char \<Rightarrow> string \<Rightarrow> string list" where
  "split_on c s = split_where (\<lambda>x. x = c) s"

text \<open>\<open>s.split()\<close>: maximal runs of non-whitespace characters.\<close>

function split_ws :: "string \<Rightarrow> string list" where
  "split_ws s =
     (case dropWhile is_space s of
        [] \<Rightarrow> []
      | x # xs \<Rightarrow>
          takeWhile (\<lambda>c. \<not> is_space c) (x # xs)
            # split_ws (dropWhile (\<lambda>c. \<not> is_space c) (x # xs)))"
  by pat_completeness auto
termination
proof (relation "measure length")
  fix s x xs
  assume d: "dropWhile is_space s = x # xs"
  have "\<not> is_space x"
    using d hd_dropWhile [of is_space s] by auto
  then have "length (dropWhile (\<lambda>c. \<not> is_space c) (x # xs)) \<le> length xs"
    by (simp add: length_dropWhile_le)
  moreover have "length (x # xs) \<le> length s"
    using d length_dropWhile_le [of is_space s] by simp
  ultimately show "(dropWhile (\<lambda>c. \<not> is_space c) (x # xs), s) \<in> measure length"
    by simp
qed simp

declare split_ws.simps [simp del]

text \<open>\<open>s.replace(old, new)\<close> for a non-empty \<open>old\<close>: non-overlapping occurrences,
  leftmost first.\<close>

function replace :: "string \<Rightarrow> string \<Rightarrow> string \<Rightarrow> string" where
  "replace old new s =
     (if old = [] then s
      else if s = [] then []
      else if startswith s old then new @ replace old new (drop (length old) s)
      else hd s # replace old new (tl s))"
  by pat_completeness auto
termination
  by (relation "measure (\<lambda>(old, new, s). length s)") auto

declare replace.simps [simp del]

definition is_digit :: "char \<Rightarrow> bool" where
  "is_digit c = (c \<in> set ''0123456789'')"

definition isdigit :: "string \<Rightarrow> bool" where
  "isdigit s = (s \<noteq> [] \<and> list_all is_digit s)"

text \<open>\<open>str(n)\<close> of an integer.\<close>

fun str_nat :: "nat \<Rightarrow> string" where
  "str_nat n = (if n < 10 then [''0123456789'' ! n]
                else str_nat (n div 10) @ [''0123456789'' ! (n mod 10)])"

declare str_nat.simps [simp del]

definition str_int :: "int \<Rightarrow> string" where
  "str_int i = (if i < 0 then ''-'' @ str_nat (nat (- i)) else str_nat (nat i))"

section \<open>Configuration\<close>

text \<open>The configuration record as \<open>load_config\<close> returns it: the sections \<open>ssh\<close>,
  \<open>ping\<close>, \<open>retry\<close> and \<open>notification\<close> with the keys the deployment core reads.\<close>

record config =
  ssh_port :: int
  ssh_user :: string
  ssh_password :: string
  ping_interval :: int
  ping_timeout :: int
  retry_interval :: int
  ssh_attempts_per_round :: int
  ssh_attempt_interval :: int
  notification_enabled :: bool
  notify_on :: "string list"
  email_enabled :: bool

definition default_config :: config where
  "default_config =
     \<lparr> ssh_port = 22, ssh_user = ''root'', ssh_password = [],
       ping_interval = 5, ping_timeout = 2,
       retry_interval = 10, ssh_attempts_per_round = 10, ssh_attempt_interval = 3,
       notification_enabled = True,
       notify_on = [''start'', ''ip_success'', ''complete''],
       email_enabled = True \<rparr>"

section \<open>Network functions\<close>

definition format_ip_for_sftp :: "string \<Rightarrow> string" where
  "format_ip_for_sftp ip =
     (if CHR '':'' \<in> set ip \<and> \<not> startswith ip ''[''
      then ''['' @ ip @ '']'' else ip)"

section \<open>The outside world\<close>

text \<open>
  The deployer acts on the world through subprocesses, SSH and SFTP sessions and the local
  file system. Each such interaction is an event; a worker's history is the list of its
  events in order. The world is a record of oracles: given the history so far and the
  request, an oracle returns the reply (a value, or the exception raised). Sleeping
  leaves no event. The console and the log file are in the world for the warning that the
  handler of the prober logs before it returns (\<open>log_message\<close> below); the progress lines
  logged elsewhere are taken as printed and leave no event. \<open>clock\<close> is
  \<open>datetime.now()\<close> in the format of the log lines.
\<close>

datatype py_exc =
    TimeoutExpired | OSError | ValueError | ExceptionPexpect | RuntimeError | OtherException

record exec_result =
  exit_status :: int
  stdout :: string
  stderr :: string

text \<open>
  The events, each with the request and the reply:
  \<^item> \<open>Run argv input r\<close>: \<open>subprocess.run\<close> of \<open>argv\<close> with \<open>input\<close> on standard input; the
    reply is the return code or the exception raised;
  \<^item> \<open>SshConnect host r\<close>: \<open>SSHClient.connect\<close>, \<open>None\<close> when connected;
  \<^item> \<open>SshExec command r\<close>: \<open>exec_command\<close> on the open connection, read to its end;
  \<^item> \<open>PexpectSpawn command r\<close>: \<open>pexpect.spawn\<close> and the first \<open>expect\<close>, which replies the
    index of the pattern seen;
  \<^item> \<open>PexpectSend lines r\<close>: the lines sent to the child up to \<open>quit\<close>, then \<open>close\<close>; the
    reply is \<open>child.exitstatus\<close>, \<open>None\<close> for a child ended by a signal;
  \<^item> \<open>SftpConnect host port r\<close>, \<open>SftpMkdir path r\<close>, \<open>SftpStat path r\<close> (the size),
    \<open>SftpPut local remote r\<close>: the calls on the native SFTP client;
  \<^item> \<open>LocalExists path b\<close>, \<open>LocalStat path r\<close> (the size), \<open>LocalHash path r\<close> (the
    SHA-256 hex digest): the local file system;
  \<^item> \<open>Print line r\<close>: \<open>print\<close> of a log line on the console, \<open>None\<close> when printed, else
    the exception raised (\<open>UnicodeEncodeError\<close> is a \<open>ValueError\<close>);
    \<open>LogWrite line r\<close>: the write and flush of the line on the log file.
\<close>

datatype event =
    Run "string list" string "py_exc + int"
  | SshConnect string "py_exc option"
  | SshExec string "py_exc + exec_result"
  | PexpectSpawn string "py_exc + nat"
  | PexpectSend "string list" "py_exc + int option"
  | SftpConnect string int "py_exc option"
  | SftpMkdir string "py_exc option"
  | SftpStat string "py_exc + nat"
  | SftpPut string string "py_exc option"
  | LocalExists string bool
  | LocalStat string "py_exc + nat"
  | LocalHash string "py_exc + string"
  | Print string "py_exc option"
  | LogWrite string "py_exc option"

type_synonym history = "event list"

record world =
  has_paramiko :: bool
  has_pexpect :: bool
  win32 :: bool
  subprocess_run :: "history \<Rightarrow> string list \<Rightarrow> string \<Rightarrow> int \<Rightarrow> py_exc + int"
  ssh_connect :: "history \<Rightarrow> string \<Rightarrow> py_exc option"
  ssh_exec :: "history \<Rightarrow> string \<Rightarrow> py_exc + exec_result"
  pexpect_spawn :: "history \<Rightarrow> string \<Rightarrow> py_exc + nat"
  pexpect_send :: "history \<Rightarrow> string list \<Rightarrow> py_exc + int option"
  sftp_connect :: "history \<Rightarrow> string \<Rightarrow> int \<Rightarrow> py_exc option"
  sftp_mkdir :: "history \<Rightarrow> string \<Rightarrow> py_exc option"
  sftp_stat :: "history \<Rightarrow> string \<Rightarrow> py_exc + nat"
  sftp_put :: "history \<Rightarrow> string \<Rightarrow> string \<Rightarrow> py_exc option"
  path_exists :: "history \<Rightarrow> string \<Rightarrow> bool"
  os_stat :: "history \<Rightarrow> string \<Rightarrow> py_exc + nat"
  sha256_file :: "history \<Rightarrow> string \<Rightarrow> py_exc + string"
  clock :: "history \<Rightarrow> string"
  console_print :: "history \<Rightarrow> string \<Rightarrow> py_exc option"
  log_file_open :: bool
  log_file_write :: "history \<Rightarrow> string \<Rightarrow> py_exc option"

text \<open>A call returns a value or raises, and leaves the history extended.\<close>

type_synonym 'a outcome = "(py_exc + 'a) \<times> history"

subsection \<open>Logger\<close>

text \<open>The icons of \<open>Logger.status_map\<close>, read with \<open>get(status, '')\<close>. A character outside
  ASCII is written as the bytes of its UTF-8 encoding: U+25B6, U+2713, U+2717 and U+26A0.\<close>

definition status_map_get :: "string \<Rightarrow> string" where
  "status_map_get status =
     (if status = ''RUNNING'' then [CHR 0xE2, CHR 0x96, CHR 0xB6]
      else if status = ''SUCCESS'' then [CHR 0xE2, CHR 0x9C, CHR 0x93]
      else if status = ''FAILED'' then [CHR 0xE2, CHR 0x9C, CHR 0x97]
      else if status = ''WARNING'' then [CHR 0xE2, CHR 0x9A, CHR 0xA0]
      else if status = ''INFO'' then ''>>''
      else [])"

text \<open>\<open>Logger.log_message\<close>: the line is printed on the console, and, when the log file is
  open, written to it and flushed. The \<open>print\<close> is not guarded, so what it raises leaves
  \<open>log_message\<close>; of the write only an \<open>OSError\<close> is swallowed. An absent \<open>ip\<close> or \<open>status\<close>
  is the empty string, which the code treats alike.\<close>

definition log_message ::
  "world \<Rightarrow> string \<Rightarrow> string \<Rightarrow> string \<Rightarrow> history \<Rightarrow> unit outcome" where
  "log_message w message ip status h =
     (let timestamp = clock w h;
          status_icon = (if status \<noteq> [] then status_map_get status else []);
          status_prefix = (if status_icon \<noteq> [] then status_icon @ '' '' else []);
          console_line =
            (if ip \<noteq> []
             then ''['' @ timestamp @ ''] ['' @ ip @ ''] '' @ status_prefix @ message
             else ''['' @ timestamp @ ''] '' @ status_prefix @ message);
          log_line = console_line @ [CHR 0x0A];
          p = console_print w h console_line;
          h1 = h @ [Print console_line p]
      in case p of
           Some e \<Rightarrow> (Inl e, h1)
         | None \<Rightarrow>
             (if log_file_open w
              then (let f = log_file_write w h1 log_line; h2 = h1 @ [LogWrite log_line f]
                    in case f of
                         None \<Rightarrow> (Inr (), h2)
                       | Some e \<Rightarrow> if e = OSError then (Inr (), h2) else (Inl e, h2))
              else (Inr (), h1)))"

text \<open>\<open>type(e).__name__\<close>, up to the subclass of the exception.\<close>

fun exc_name :: "py_exc \<Rightarrow> string" where
  "exc_name TimeoutExpired = ''TimeoutExpired''"
| "exc_name OSError = ''OSError''"
| "exc_name ValueError = ''ValueError''"
| "exc_name ExceptionPexpect = ''ExceptionPexpect''"
| "exc_name RuntimeError = ''RuntimeError''"
| "exc_name OtherException = ''Exception''"

subsection \<open>Reachability prober\<close>

definition ping_argv :: "bool \<Rightarrow> config \<Rightarrow> string \<Rightarrow> string list" where
  "ping_argv on_win32 cfg ip =
     (if on_win32
      then [''ping'', ''-n'', ''1'', ''-w'', str_int (ping_timeout cfg * 1000), ip]
      else [''ping'', ''-c'', ''1'', ''-W'', str_int (ping_timeout cfg), ip])"

definition ping_check :: "world \<Rightarrow> config \<Rightarrow> string \<Rightarrow> history \<Rightarrow> bool outcome" where
  "ping_check w cfg ip h =
     (let argv = ping_argv (win32 w) cfg ip;
          result = subprocess_run w h argv [] (ping_timeout cfg + 1);
          h' = h @ [Run argv [] result]
      in case result of
           Inr returncode \<Rightarrow> (Inr (returncode = 0), h')
         | Inl e \<Rightarrow>
             (if e = TimeoutExpired \<or> e = OSError \<or> e = ValueError
              then (case log_message w (''Ping error : '' @ exc_name e) ip ''WARNING'' h' of
                      (Inl raised, h'') \<Rightarrow> (Inl raised, h'')
                    | (Inr u, h'') \<Rightarrow> (Inr False, h''))
              else (Inl e, h')))"

partial_function (option) wait_for_ping ::
  "world \<Rightarrow> config \<Rightarrow> string \<Rightarrow> history \<Rightarrow> bool outcome option" where
  "wait_for_ping w cfg ip h =
     (case ping_check w cfg ip h of
        (Inl e, h') \<Rightarrow> Some (Inl e, h')
      | (Inr ok, h') \<Rightarrow> if ok then Some (Inr True, h') else wait_for_ping w cfg ip h')"

declare wait_for_ping.simps [code]

subsection \<open>SSH readiness gate\<close>

definition ssh_connection :: "world \<Rightarrow> string \<Rightarrow> history \<Rightarrow> unit outcome" where
  "ssh_connection w ip h =
     (if \<not> has_paramiko w then (Inl RuntimeError, h)
      else (let r = ssh_connect w h ip; h' = h @ [SshConnect ip r]
            in case r of Some e \<Rightarrow> (Inl e, h') | None \<Rightarrow> (Inr (), h')))"

text \<open>One SSH attempt of the readiness gate: connect, run \<open>echo test\<close>, and succeed on
  exit status 0. Every exception is swallowed by the attempt.\<close>

definition ssh_probe :: "world \<Rightarrow> string \<Rightarrow> history \<Rightarrow> bool \<times> history" where
  "ssh_probe w ip h =
     (case ssh_connection w ip h of
        (Inl e, h1) \<Rightarrow> (False, h1)
      | (Inr u, h1) \<Rightarrow>
          (let r = ssh_exec w h1 ''echo test''; h2 = h1 @ [SshExec ''echo test'' r]
           in case r of
                Inl e \<Rightarrow> (False, h2)
              | Inr res \<Rightarrow> (exit_status res = 0, h2)))"

text \<open>The \<open>for ssh_try_count in range(1, ssh_attempts_per_round + 1)\<close> loop: \<open>True\<close> when
  an attempt returned from the gate, \<open>False\<close> when the attempts are used up.\<close>

fun ssh_attempts :: "world \<Rightarrow> string \<Rightarrow> nat \<Rightarrow> history \<Rightarrow> bool \<times> history" where
  "ssh_attempts w ip 0 h = (False, h)"
| "ssh_attempts w ip (Suc k) h =
     (case ssh_probe w ip h of
        (ok, h') \<Rightarrow> if ok then (True, h') else ssh_attempts w ip k h')"

partial_function (option) wait_for_ssh_loop ::
  "world \<Rightarrow> config \<Rightarrow> string \<Rightarrow> history \<Rightarrow> bool outcome option" where
  "wait_for_ssh_loop w cfg ip h =
     (case wait_for_ping w cfg ip h of
        None \<Rightarrow> None
      | Some (Inl e, h1) \<Rightarrow> Some (Inl e, h1)
      | Some (Inr b, h1) \<Rightarrow>
          (case ssh_attempts w ip (nat (ssh_attempts_per_round cfg)) h1 of
             (ok, h2) \<Rightarrow> if ok then Some (Inr True, h2) else wait_for_ssh_loop w cfg ip h2))"

declare wait_for_ssh_loop.simps [code]

definition wait_for_ssh_ready ::
  "world \<Rightarrow> config \<Rightarrow> string \<Rightarrow> history \<Rightarrow> bool outcome option" where
  "wait_for_ssh_ready w cfg ip h =
     (if \<not> has_paramiko w
      then (case wait_for_ping w cfg ip h of
              None \<Rightarrow> None
            | Some (Inl e, h1) \<Rightarrow> Some (Inl e, h1)
            | Some (Inr b, h1) \<Rightarrow> Some (Inr True, h1))
      else wait_for_ssh_loop w cfg ip h)"

section \<open>File transfer\<close>

text \<open>\<open>os.path.dirname\<close> and \<open>os.path.join\<close> as \<open>posixpath\<close> defines them.\<close>

definition dirname :: "string \<Rightarrow> string" where
  "dirname p =
     (let head = rev (dropWhile (\<lambda>c. c \<noteq> CHR ''/'') (rev p))
      in if head \<noteq> [] \<and> \<not> list_all (\<lambda>c. c = CHR ''/'') head
         then rev (dropWhile (\<lambda>c. c = CHR ''/'') (rev head))
         else head)"

definition os_path_join :: "string \<Rightarrow> string \<Rightarrow> string" where
  "os_path_join a b =
     (if startswith b ''/'' then b
      else if a = [] \<or> endswith a ''/'' then a @ b
      else a @ ''/'' @ b)"

definition FILE_DIR :: string where
  "FILE_DIR = ''file''"

text \<open>The loop of \<open>check_remote_directory\<close> over the path segments. An \<open>OSError\<close> of
  \<open>mkdir\<close> is followed by a \<open>stat\<close>, whose own \<open>OSError\<close> is ignored; any other exception
  leaves the loop.\<close>

fun mkdir_each :: "world \<Rightarrow> string \<Rightarrow> string list \<Rightarrow> history \<Rightarrow> unit outcome" where
  "mkdir_each w current_path [] h = (Inr (), h)"
| "mkdir_each w current_path (d # ds) h =
     (let current_path' = (if current_path \<noteq> [] then current_path @ ''/'' @ d else ''/'' @ d);
          r = sftp_mkdir w h current_path';
          h1 = h @ [SftpMkdir current_path' r]
      in case r of
           None \<Rightarrow> mkdir_each w current_path' ds h1
         | Some e \<Rightarrow>
             (if e = OSError
              then (let s = sftp_stat w h1 current_path';
                        h2 = h1 @ [SftpStat current_path' s]
                    in case s of
                         Inr sz \<Rightarrow> mkdir_each w current_path' ds h2
                       | Inl e2 \<Rightarrow>
                           (if e2 = OSError then mkdir_each w current_path' ds h2
                            else (Inl e2, h2)))
              else (Inl e, h1)))"

definition check_remote_directory :: "world \<Rightarrow> string \<Rightarrow> history \<Rightarrow> history" where
  "check_remote_directory w remote_file_path h =
     (let remote_dir = dirname remote_file_path
      in if remote_dir = [] then h
         else (let remote_dir' =
                     (if \<not> startswith remote_dir ''/'' then ''/'' @ remote_dir else remote_dir);
                   dirs = filter (\<lambda>d. d \<noteq> []) (split_on (CHR ''/'') remote_dir')
               in snd (mkdir_each w [] dirs h)))"

text \<open>The native SFTP backend: connect, create the directories, \<open>put\<close>, compare sizes.
  Its \<open>except Exception\<close> turns every failure into \<open>False\<close>.\<close>

definition send_file_sftp_paramiko ::
  "world \<Rightarrow> config \<Rightarrow> string \<Rightarrow> string \<Rightarrow> string \<Rightarrow> history \<Rightarrow> bool \<times> history" where
  "send_file_sftp_paramiko w cfg ip local_file_path remote_file_path h =
     (if \<not> has_paramiko w then (False, h)
      else
       (let c = sftp_connect w h ip (ssh_port cfg); h1 = h @ [SftpConnect ip (ssh_port cfg) c]
        in case c of
             Some e \<Rightarrow> (False, h1)
           | None \<Rightarrow>
              (let h2 = check_remote_directory w remote_file_path h1;
                   p = sftp_put w h2 local_file_path remote_file_path;
                   h3 = h2 @ [SftpPut local_file_path remote_file_path p]
               in case p of
                    Some e \<Rightarrow> (False, h3)
                  | None \<Rightarrow>
                     (let rs = sftp_stat w h3 remote_file_path;
                          h4 = h3 @ [SftpStat remote_file_path rs]
                      in case rs of
                           Inl e \<Rightarrow> (False, h4)
                         | Inr remote_size \<Rightarrow>
                            (let ls = os_stat w h4 local_file_path;
                                 h5 = h4 @ [LocalStat local_file_path ls]
                             in case ls of
                                  Inl e \<Rightarrow> (False, h5)
                                | Inr local_size \<Rightarrow> (remote_size = local_size, h5))))))"

subsection \<open>Integrity verifier\<close>

definition get_file_hash :: "world \<Rightarrow> string \<Rightarrow> history \<Rightarrow> string option outcome" where
  "get_file_hash w file_path h =
     (let r = sha256_file w h file_path; h' = h @ [LocalHash file_path r]
      in case r of
           Inr digest \<Rightarrow> (Inr (Some digest), h')
         | Inl e \<Rightarrow> (if e = OSError then (Inr None, h') else (Inl e, h')))"

definition get_remote_file_hash ::
  "world \<Rightarrow> string \<Rightarrow> string \<Rightarrow> history \<Rightarrow> string option \<times> history" where
  "get_remote_file_hash w ip remote_file_path h =
     (case ssh_connection w ip h of
        (Inl e, h1) \<Rightarrow> (None, h1)
      | (Inr u, h1) \<Rightarrow>
          (let cmd = ''sha256sum '' @ remote_file_path;
               r = ssh_exec w h1 cmd;
               h2 = h1 @ [SshExec cmd r]
           in case r of
                Inl e \<Rightarrow> (None, h2)
              | Inr res \<Rightarrow>
                  (let output = strip (stdout res)
                   in if output \<noteq> []
                      then (case split_ws output of
                              [] \<Rightarrow> (None, h2)
                            | hash_value # rest \<Rightarrow> (Some hash_value, h2))
                      else (None, h2))))"

text \<open>Python truthiness of an \<open>Optional[str]\<close>: neither \<open>None\<close> nor the empty string.\<close>

definition truthy :: "string option \<Rightarrow> bool" where
  "truthy v = (case v of None \<Rightarrow> False | Some s \<Rightarrow> s \<noteq> [])"

subsection \<open>The expect-driven backend\<close>

definition sftp_cmd :: "config \<Rightarrow> string \<Rightarrow> string" where
  "sftp_cmd cfg ip =
     ''sftp -P '' @ str_int (ssh_port cfg) @ '' '' @
     ''-o HostKeyAlgorithms=ssh-rsa '' @
     ''-o StrictHostKeyChecking=no '' @
     ''-o ConnectTimeout=10 '' @
     ssh_user cfg @ ''@'' @ format_ip_for_sftp ip"

definition pexpect_lines :: "config \<Rightarrow> nat \<Rightarrow> string \<Rightarrow> string \<Rightarrow> string list" where
  "pexpect_lines cfg index local_file_path remote_file_path =
     (if index < 2 then [ssh_password cfg] else []) @
     [''rm '' @ remote_file_path,
      ''put '' @ local_file_path @ '' '' @ remote_file_path,
      ''quit'']"

definition pexpect_except :: "py_exc \<Rightarrow> history \<Rightarrow> bool outcome" where
  "pexpect_except e h =
     (if e = ExceptionPexpect \<or> e = OSError \<or> e = ValueError
      then (Inr False, h) else (Inl e, h))"

text \<open>What \<open>send_file_sftp_pexpect\<close> does once the child has exited with status 0.\<close>

definition verify_hash ::
  "world \<Rightarrow> string \<Rightarrow> string \<Rightarrow> string \<Rightarrow> history \<Rightarrow> bool outcome" where
  "verify_hash w ip local_file_path remote_file_path h =
     (case get_file_hash w local_file_path h of
        (Inl e, h1) \<Rightarrow> pexpect_except e h1
      | (Inr local_hash, h1) \<Rightarrow>
          (if truthy local_hash \<and> has_paramiko w
           then (case get_remote_file_hash w ip remote_file_path h1 of
                   (remote_hash, h2) \<Rightarrow>
                     (if truthy remote_hash
                      then (if local_hash = remote_hash then (Inr True, h2)
                            else (Inr False, h2))
                      else (Inr True, h2)))
           else (Inr True, h1)))"

definition send_file_sftp_pexpect ::
  "world \<Rightarrow> config \<Rightarrow> string \<Rightarrow> string \<Rightarrow> string \<Rightarrow> history \<Rightarrow> bool outcome" where
  "send_file_sftp_pexpect w cfg ip local_file_path remote_file_path h =
     (if \<not> has_pexpect w then (Inr False, h)
      else
       (let cmd = sftp_cmd cfg ip;
            s = pexpect_spawn w h cmd;
            h1 = h @ [PexpectSpawn cmd s]
        in case s of
             Inl e \<Rightarrow> pexpect_except e h1
           | Inr index \<Rightarrow>
              (let lines = pexpect_lines cfg index local_file_path remote_file_path;
                   x = pexpect_send w h1 lines;
                   h2 = h1 @ [PexpectSend lines x]
               in case x of
                    Inl e \<Rightarrow> pexpect_except e h2
                  | Inr exitstatus \<Rightarrow>
                      (if exitstatus = Some 0
                       then verify_hash w ip local_file_path remote_file_path h2
                       else (Inr False, h2)))))"

subsection \<open>The subprocess backend\<close>

definition sftp_argv :: "config \<Rightarrow> string \<Rightarrow> string list" where
  "sftp_argv cfg ip =
     [''sftp'',
      ''-P'', str_int (ssh_port cfg),
      ''-o'', ''HostKeyAlgorithms ssh-rsa'',
      ''-o'', ''StrictHostKeyChecking=no'',
      ''-o'', ''ConnectTimeout=10'',
      ssh_user cfg @ ''@'' @ format_ip_for_sftp ip]"

definition sftp_commands :: "string \<Rightarrow> string \<Rightarrow> string" where
  "sftp_commands local_file_path remote_file_path =
     ''put '' @ local_file_path @ '' '' @ remote_file_path @ [CHR 0x0A] @ ''quit'' @ [CHR 0x0A]"

definition send_file_sftp_subprocess ::
  "world \<Rightarrow> config \<Rightarrow> string \<Rightarrow> string \<Rightarrow> string \<Rightarrow> history \<Rightarrow> bool outcome" where
  "send_file_sftp_subprocess w cfg ip local_file_path remote_file_path h =
     (let argv = sftp_argv cfg ip;
          input = sftp_commands local_file_path remote_file_path;
          result = subprocess_run w h argv input 30;
          h' = h @ [Run argv input result]
      in case result of
           Inr returncode \<Rightarrow> (Inr (returncode = 0), h')
         | Inl e \<Rightarrow>
             (if e = TimeoutExpired \<or> e = OSError \<or> e = ValueError
              then (Inr False, h') else (Inl e, h')))"

subsection \<open>Fallback order\<close>

definition send_file_with_fallback ::
  "world \<Rightarrow> config \<Rightarrow> string \<Rightarrow> string \<Rightarrow> string \<Rightarrow> history \<Rightarrow> bool outcome" where
  "send_file_with_fallback w cfg ip local_file_path remote_file_path h =
     (case (if has_pexpect w
            then send_file_sftp_pexpect w cfg ip local_file_path remote_file_path h
            else (Inr False, h)) of
        (Inl e, h1) \<Rightarrow> (Inl e, h1)
      | (Inr sent1, h1) \<Rightarrow>
          (if sent1 then (Inr True, h1)
           else
            (case (if has_paramiko w
                   then send_file_sftp_paramiko w cfg ip local_file_path remote_file_path h1
                   else (False, h1)) of
               (sent2, h2) \<Rightarrow>
                 (if sent2 then (Inr True, h2)
                  else send_file_sftp_subprocess w cfg ip local_file_path remote_file_path h2))))"

section \<open>Remote commands\<close>


definition ps_command :: "string \<Rightarrow> string" where
  "ps_command filename =
     ''ps | grep '' @ filename @ '' | grep -v grep | awk '' @
     [CHR 0x27] @ ''{print $1}'' @ [CHR 0x27]"

text \<open>The loop over the lines of the \<open>ps\<close> output. The outcome of a \<open>kill\<close>, an exception
  included, is ignored.\<close>

fun kill_each :: "world \<Rightarrow> string list \<Rightarrow> history \<Rightarrow> history" where
  "kill_each w [] h = h"
| "kill_each w (line # rest) h =
     (let pid = strip line
      in if pid \<noteq> [] \<and> isdigit pid
         then (let cmd = ''kill -9 '' @ pid; r = ssh_exec w h cmd
               in kill_each w rest (h @ [SshExec cmd r]))
         else kill_each w rest h)"

definition execute_remote_commands ::
  "world \<Rightarrow> string \<Rightarrow> string \<Rightarrow> string \<Rightarrow> history \<Rightarrow> bool \<times> history" where
  "execute_remote_commands w ip remote_file_path filename h =
     (case ssh_connection w ip h of
        (Inl e, h1) \<Rightarrow> (False, h1)
      | (Inr u, h1) \<Rightarrow>
          (let remote_file_original = replace ''.BMT'' [] remote_file_path;
               mv_command = ''mv '' @ remote_file_path @ '' '' @ remote_file_original;
               m = ssh_exec w h1 mv_command;
               h2 = h1 @ [SshExec mv_command m]
           in case m of
                Inl e \<Rightarrow> (False, h2)
              | Inr mv \<Rightarrow>
                  (if exit_status mv \<noteq> 0 then (False, h2)
                   else
                    (let p = ssh_exec w h2 (ps_command filename);
                         h3 = h2 @ [SshExec (ps_command filename) p]
                     in case p of
                          Inl e \<Rightarrow> (False, h3)
                        | Inr ps \<Rightarrow>
                            (let pids = strip (stdout ps)
                             in if pids \<noteq> []
                                then (True, kill_each w (split_on (CHR 0x0A) pids) h3)
                                else (True, h3))))))"

section \<open>Per-host worker\<close>

definition make_remote_file_path :: "string \<Rightarrow> string \<Rightarrow> string" where
  "make_remote_file_path remote_path filename =
     (if endswith remote_path ''/''
      then remote_path @ filename @ ''.BMT''
      else remote_path @ ''/'' @ filename @ ''.BMT'')"

partial_function (option) send_single_file ::
  "world \<Rightarrow> config \<Rightarrow> string \<Rightarrow> string \<Rightarrow> string \<Rightarrow> string \<Rightarrow> bool \<Rightarrow> history
     \<Rightarrow> bool outcome option" where
  "send_single_file w cfg ip filename local_file_path remote_file_path move_mode h =
     (case send_file_with_fallback w cfg ip local_file_path remote_file_path h of
        (Inl e, h1) \<Rightarrow> Some (Inl e, h1)
      | (Inr success, h1) \<Rightarrow>
          (if success
           then (if move_mode \<and> has_paramiko w
                 then (case execute_remote_commands w ip remote_file_path filename h1 of
                         (moved, h2) \<Rightarrow>
                           (if moved then Some (Inr True, h2)
                            else send_single_file w cfg ip filename local_file_path
                                   remote_file_path move_mode h2))
                 else Some (Inr True, h1))
           else send_single_file w cfg ip filename local_file_path
                  remote_file_path move_mode h1))"

declare send_single_file.simps [code]

text \<open>The manifest is a Python \<open>dict\<close> iterated in insertion order: a list of pairs of
  a file name and its remote directory. The loop of \<open>process_single_ip\<close> over it:\<close>

fun send_files ::
  "world \<Rightarrow> config \<Rightarrow> string \<Rightarrow> bool \<Rightarrow> (string \<times> string) list \<Rightarrow> history
     \<Rightarrow> unit outcome option" where
  "send_files w cfg ip move_mode [] h = Some (Inr (), h)"
| "send_files w cfg ip move_mode ((filename, remote_path) # rest) h =
     (let local_file_path = os_path_join FILE_DIR filename;
          present = path_exists w h local_file_path;
          h1 = h @ [LocalExists local_file_path present]
      in if \<not> present then send_files w cfg ip move_mode rest h1
         else (case send_single_file w cfg ip filename local_file_path
                      (make_remote_file_path remote_path filename) move_mode h1 of
                 None \<Rightarrow> None
               | Some (Inl e, h2) \<Rightarrow> Some (Inl e, h2)
               | Some (Inr sent, h2) \<Rightarrow> send_files w cfg ip move_mode rest h2))"

text \<open>\<open>process_single_ip\<close> returns \<open>True\<close> after the loop, and \<open>False\<close> from its
  \<open>except Exception\<close>; \<open>None\<close> is a worker that never returns.\<close>

definition process_single_ip ::
  "world \<Rightarrow> config \<Rightarrow> string \<Rightarrow> (string \<times> string) list \<Rightarrow> bool \<Rightarrow> history
     \<Rightarrow> (bool \<times> history) option" where
  "process_single_ip w cfg ip file_map move_mode h =
     (case wait_for_ssh_ready w cfg ip h of
        None \<Rightarrow> None
      | Some (Inl e, h1) \<Rightarrow> Some (False, h1)
      | Some (Inr ready, h1) \<Rightarrow>
          (case send_files w cfg ip move_mode file_map h1 of
             None \<Rightarrow> None
           | Some (Inl e, h2) \<Rightarrow> Some (False, h2)
           | Some (Inr u, h2) \<Rightarrow> Some (True, h2)))"

section \<open>Notifications\<close>

text \<open>\<open>send_notification\<close> ignores its \<open>notify_on\<close> argument: it hands the message to
  \<open>send_email_notification\<close> when the notification section and its email subsection are
  both enabled. A dispatched message is recorded by its event tag.\<close>

definition send_notification :: "config \<Rightarrow> string \<Rightarrow> string list" where
  "send_notification cfg tag =
     (if \<not> notification_enabled cfg then []
      else if email_enabled cfg then [tag] else [])"

text \<open>The three call sites of \<open>main\<close>, each with the guard \<open>main\<close> puts before it.\<close>

definition notify_start :: "config \<Rightarrow> string list" where
  "notify_start cfg =
     (if notification_enabled cfg \<and> ''start'' \<in> set (notify_on cfg)
      then send_notification cfg ''start'' else [])"

definition notify_ip_success :: "config \<Rightarrow> string list" where
  "notify_ip_success cfg =
     (if notification_enabled cfg \<and> ''ip_success'' \<in> set (notify_on cfg)
      then send_notification cfg ''ip_success'' else [])"

definition notify_complete :: "config \<Rightarrow> nat \<Rightarrow> nat \<Rightarrow> string list" where
  "notify_complete cfg n_success n_ip =
     (if notification_enabled cfg
      then (if ''complete'' \<in> set (notify_on cfg) \<and> n_success = n_ip
            then send_notification cfg ''complete'' else [])
      else [])"

section \<open>File I/O\<close>

text \<open>A text file is its content, \<open>None\<close> when the file does not exist. Reading a text
  file line by line splits at line feeds and carriage returns (universal newlines); both
  readers below strip each line and drop the empty ones.\<close>

definition is_newline :: "char \<Rightarrow> bool" where
  "is_newline c = (c = CHR 0x0A \<or> c = CHR 0x0D)"

definition stripped_lines :: "string \<Rightarrow> string list" where
  "stripped_lines text = filter (\<lambda>l. l \<noteq> []) (map strip (split_where is_newline text))"

definition read_ip_list :: "string option \<Rightarrow> string list" where
  "read_ip_list ip_file =
     (case ip_file of
        None \<Rightarrow> []
      | Some text \<Rightarrow> filter (\<lambda>line. \<not> startswith line ''#'') (stripped_lines text))"

text \<open>The operations on \<open>complete.txt\<close>. Both swallow an \<open>OSError\<close>; where it is raised
  is an input: while removing the file, while reading it, or while appending to it.\<close>

datatype io_fault = NoFault | ReadFails | AppendFails

definition init_complete_file :: "bool \<Rightarrow> string option \<Rightarrow> string option" where
  "init_complete_file remove_fails complete_txt =
     (case complete_txt of
        None \<Rightarrow> None
      | Some text \<Rightarrow> if remove_fails then Some text else None)"

definition record_complete_ip :: "io_fault \<Rightarrow> string \<Rightarrow> string option \<Rightarrow> string option" where
  "record_complete_ip fault ip complete_txt =
     (case (case complete_txt of
              None \<Rightarrow> Some {}
            | Some text \<Rightarrow> if fault = ReadFails then None else Some (set (stripped_lines text))) of
        None \<Rightarrow> complete_txt
      | Some existing_ips \<Rightarrow>
          (if ip \<notin> existing_ips
           then (if fault = AppendFails then complete_txt
                 else Some ((case complete_txt of None \<Rightarrow> [] | Some text \<Rightarrow> text)
                            @ ip @ [CHR 0x0A]))
           else complete_txt))"

section \<open>Fleet orchestrator\<close>

text \<open>The inputs of one run of \<open>main\<close>: what it reads at startup, the world each worker
  of each round runs in (by round number and by position in that round's
  \<open>remaining_ip\<close>), and the faults of the operations on \<open>complete.txt\<close>.\<close>

record deployment =
  file_dir_exists :: bool
  ip_txt :: "string option"
  dep_file_map :: "(string \<times> string) list"
  dep_move_mode :: bool
  dep_config :: config
  worker_world :: "nat \<Rightarrow> nat \<Rightarrow> world"
  old_complete_txt :: "string option"
  remove_fails :: bool
  record_fault :: "nat \<Rightarrow> nat \<Rightarrow> io_fault"

definition ip_list :: "deployment \<Rightarrow> string list" where
  "ip_list d = read_ip_list (ip_txt d)"

text \<open>Where \<open>main\<close> stands: at the head of the round loop; inside a round, with that
  round's \<open>remaining_ip\<close> and the positions of the futures \<open>as_completed\<close> has not yet
  yielded; after the loop; finished; or exited with status 1 at startup.\<close>

datatype pc = Head | Round "string list" "nat list" | AfterLoop | Finished | Exit1

record run_state =
  success_ip :: "string set"
  retry_round :: nat
  complete_txt :: "string option"
  sent :: "string list"
  pc :: pc

definition initial :: "deployment \<Rightarrow> run_state" where
  "initial d =
     (if \<not> file_dir_exists d \<or> ip_list d = [] \<or> dep_file_map d = []
      then \<lparr> success_ip = {}, retry_round = 0, complete_txt = old_complete_txt d,
             sent = [], pc = Exit1 \<rparr>
      else \<lparr> success_ip = {}, retry_round = 0,
             complete_txt = init_complete_file (remove_fails d) (old_complete_txt d),
             sent = notify_start (dep_config d), pc = Head \<rparr>)"

text \<open>One step of \<open>main\<close>. Inside a round the step handles the future at position
  \<open>choice\<close> if it is still pending and its worker has returned; \<open>as_completed\<close> may yield
  the finished futures in any order, so the choice is an input. A choice that names no
  finished pending future leaves the state as it is.\<close>

definition step :: "deployment \<Rightarrow> nat \<Rightarrow> run_state \<Rightarrow> run_state" where
  "step d choice s =
     (case pc s of
        Head \<Rightarrow>
          (if card (success_ip s) < length (ip_list d)
           then (let remaining_ip = filter (\<lambda>ip. ip \<notin> success_ip s) (ip_list d)
                 in if remaining_ip = [] then s\<lparr>pc := AfterLoop\<rparr>
                    else s\<lparr>retry_round := retry_round s + 1,
                           pc := Round remaining_ip [0..<length remaining_ip]\<rparr>)
           else s\<lparr>pc := AfterLoop\<rparr>)
      | Round remaining_ip pending \<Rightarrow>
          (if pending = [] then s\<lparr>pc := Head\<rparr>
           else if choice \<in> set pending
           then (case process_single_ip (worker_world d (retry_round s) choice) (dep_config d)
                        (remaining_ip ! choice) (dep_file_map d) (dep_move_mode d) [] of
                   None \<Rightarrow> s
                 | Some (result, h) \<Rightarrow>
                     (if result
                      then s\<lparr>success_ip := insert (remaining_ip ! choice) (success_ip s),
                             complete_txt :=
                               record_complete_ip (record_fault d (retry_round s) choice)
                                 (remaining_ip ! choice) (complete_txt s),
                             sent := sent s @ notify_ip_success (dep_config d),
                             pc := Round remaining_ip (removeAll choice pending)\<rparr>
                      else s\<lparr>pc := Round remaining_ip (removeAll choice pending)\<rparr>))
           else s)
      | AfterLoop \<Rightarrow>
          s\<lparr>sent := sent s @ notify_complete (dep_config d) (card (success_ip s)) (length (ip_list d)),
            pc := Finished\<rparr>
      | Finished \<Rightarrow> s
      | Exit1 \<Rightarrow> s)"

text \<open>The state of \<open>main\<close> after a sequence of steps.\<close>

definition run :: "deployment \<Rightarrow> nat list \<Rightarrow> run_state" where
  "run d choices = foldl (\<lambda>s choice. step d choice s) (initial d) choices"

section \<open>Observations on histories and states\<close>

text \<open>A ping probe in the history, and a ping probe that succeeded.\<close>

fun is_ping :: "event \<Rightarrow> bool" where
  "is_ping (Run argv inp r) = (take 1 argv = [''ping''])"
| "is_ping e = False"

fun ping_ok :: "event \<Rightarrow> bool" where
  "ping_ok (Run argv inp r) = (take 1 argv = [''ping''] \<and> r = Inr 0)"
| "ping_ok e = False"

text \<open>A line of the logger in the history.\<close>

fun is_log :: "event \<Rightarrow> bool" where
  "is_log (Print line r) = True"
| "is_log (LogWrite line r) = True"
| "is_log e = False"


text \<open>One manifest entry handled by the worker between two histories: a file absent
  locally is skipped, any other is sent by \<open>send_single_file\<close> returning \<open>True\<close>.\<close>

definition entry_done ::
  "world \<Rightarrow> config \<Rightarrow> string \<Rightarrow> bool \<Rightarrow> string \<times> string \<Rightarrow> history \<Rightarrow> history \<Rightarrow> bool" where
  "entry_done w cfg ip move entry h h' =
     (let local_file_path = os_path_join FILE_DIR (fst entry);
          present = path_exists w h local_file_path;
          h1 = h @ [LocalExists local_file_path present]
      in if present
         then send_single_file w cfg ip (fst entry) local_file_path
                (make_remote_file_path (snd entry) (fst entry)) move h1 = Some (Inr True, h')
         else h' = h1)"

text \<open>What holds of the success set and of a round's \<open>remaining_ip\<close> in every state.\<close>

definition round_inv :: "deployment \<Rightarrow> run_state \<Rightarrow> bool" where
  "round_inv d s =
     (success_ip s \<subseteq> set (ip_list d)
      \<and> (case pc s of
            Round rem pend \<Rightarrow>
              set rem \<union> success_ip s = set (ip_list d)
              \<and> (\<forall>i\<in>set pend. i < length rem)
              \<and> set rem \<inter> success_ip s \<subseteq> {rem ! i |i. i < length rem \<and> i \<notin> set pend}
          | _ \<Rightarrow> True))"

section \<open>Example worlds and runs\<close>

text \<open>No SSH library, no \<open>pexpect\<close>, a POSIX platform; every subprocess exits with status 0,
  every file exists and every log line is printed and written. The examples below vary
  it.\<close>

definition calm_world :: world where
  "calm_world =
     \<lparr> has_paramiko = False, has_pexpect = False, win32 = False,
       subprocess_run = (\<lambda>h argv inp t. Inr 0),
       ssh_connect = (\<lambda>h ip. None),
       ssh_exec = (\<lambda>h cmd. Inr \<lparr>exit_status = 0, stdout = [], stderr = []\<rparr>),
       pexpect_spawn = (\<lambda>h cmd. Inr 0),
       pexpect_send = (\<lambda>h ls. Inr (Some 0)),
       sftp_connect = (\<lambda>h ip port. None),
       sftp_mkdir = (\<lambda>h p. None),
       sftp_stat = (\<lambda>h p. Inr 1024),
       sftp_put = (\<lambda>h l r. None),
       path_exists = (\<lambda>h p. True),
       os_stat = (\<lambda>h p. Inr 1024),
       sha256_file = (\<lambda>h p. Inr ''e3b0c442''),
       clock = (\<lambda>h. ''2024-01-01 00:00:00''),
       console_print = (\<lambda>h line. None),
       log_file_open = True,
       log_file_write = (\<lambda>h line. None) \<rparr>"



text \<open>A host whose ping times out, seen from a console that encodes ASCII only: \<open>print\<close>
  of a line with any other character raises \<open>UnicodeEncodeError\<close>.\<close>

definition ascii_console :: world where
  "ascii_console =
     calm_world
       \<lparr> subprocess_run := (\<lambda>h argv inp t. Inl TimeoutExpired),
         console_print := (\<lambda>h line.
            if list_all (\<lambda>c. of_char c < (128::nat)) line then None else Some ValueError) \<rparr>"



text \<open>A configuration with notifications and email enabled whose \<open>notify_on\<close> list lacks
  \<open>ip_success\<close>: no per-host message is dispatched.\<close>

definition masked_config :: config where
  "masked_config = default_config\<lparr>notify_on := [''start'', ''complete'']\<rparr>"

text \<open>A world with both libraries present.\<close>

definition both_world :: world where
  "both_world = calm_world\<lparr>has_paramiko := True, has_pexpect := True\<rparr>"







text \<open>One host and one file in \<open>nomove\<close> mode, with a ledger left over from an earlier
  run.\<close>

definition lone_host :: deployment where
  "lone_host =
     \<lparr> file_dir_exists = True,
       ip_txt = Some (''10.0.0.5'' @ [CHR 0x0A]),
       dep_file_map = [(''hello.bin'', ''/tmp/'')],
       dep_move_mode = False,
       dep_config = default_config,
       worker_world = (\<lambda>round_no position. calm_world),
       old_complete_txt = Some (''192.168.1.1'' @ [CHR 0x0A]),
       remove_fails = False,
       record_fault = (\<lambda>round_no position. NoFault) \<rparr>"

text \<open>The same run with an append that fails: the host is in the success set and the run
  finishes, but the ledger stays empty.\<close>

definition append_fails :: deployment where
  "append_fails = lone_host\<lparr>record_fault := (\<lambda>round_no position. AppendFails)\<rparr>"

section \<open>Facts about the string helpers\<close>


lemma rev_split: "m = rev (dropWhile P (rev m)) @ rev (takeWhile P (rev m))"
proof -
  have "rev (takeWhile P (rev m) @ dropWhile P (rev m)) = m"
    by (simp only: takeWhile_dropWhile_id rev_rev_ident)
  then show ?thesis
    by (simp only: rev_append)
qed


lemma strip_ends:
  assumes "strip s \<noteq> []"
  shows "\<not> is_space (hd (strip s)) \<and> \<not> is_space (last (strip s))"
proof -
  define m where "m = dropWhile is_space s"
  have ne: "dropWhile is_space (rev m) \<noteq> []"
    using assms by (simp add: strip_def m_def)
  have l: "\<not> is_space (last (strip s))"
    using ne hd_dropWhile [of is_space "rev m"]
    by (simp add: strip_def m_def last_rev)
  have m: "m = strip s @ rev (takeWhile is_space (rev m))"
    using rev_split [of m is_space] by (simp add: strip_def m_def)
  then have "hd m = hd (strip s)"
    using assms by (metis hd_append2)
  moreover have "m \<noteq> []"
    using m assms by auto
  ultimately have "\<not> is_space (hd (strip s))"
    using hd_dropWhile [of is_space s] by (simp add: m_def)
  with l show ?thesis by simp
qed

lemma strip_id:
  assumes "s = [] \<or> (\<not> is_space (hd s) \<and> \<not> is_space (last s))"
  shows "strip s = s"
proof (cases "s = []")
  case True
  then show ?thesis by (simp add: strip_def)
next
  case False
  with assms have h: "\<not> is_space (hd s)" and l: "\<not> is_space (last s)" by auto
  from False h have 1: "dropWhile is_space s = s"
    by (cases s) auto
  from False l have 2: "dropWhile is_space (rev s) = rev s"
    by (cases "rev s") (auto simp: last_rev hd_rev)
  show ?thesis by (simp add: strip_def 1 2)
qed

lemma strip_idem: "strip (strip s) = strip s"
  using strip_id [of "strip s"] strip_ends [of s] by blast

lemma set_strip: "set (strip s) \<subseteq> set s"
proof -
  have "set (strip s) \<subseteq> set (dropWhile is_space s)"
    unfolding strip_def by (metis set_dropWhileD set_rev subsetI)
  then show ?thesis
    by (meson set_dropWhileD subset_iff)
qed


lemma split_where_no_sep_all: "\<forall>l\<in>set (split_where P s). \<forall>c\<in>set l. \<not> P c"
  by (induction s) (auto split: list.splits)

lemma split_where_no_sep: "l \<in> set (split_where P s) \<Longrightarrow> c \<in> set l \<Longrightarrow> \<not> P c"
  using split_where_no_sep_all by blast





section \<open>The post-transfer action\<close>








section \<open>The reachability prober\<close>

text \<open>What \<open>ping_check\<close> does with each reply of the subprocess: an exit status is
  compared with zero and nothing is logged; one of the three caught exceptions is logged as
  a warning and reported as \<open>False\<close> if the logging returns; any other exception leaves
  \<open>ping_check\<close>. The command counts one probe.\<close>

lemma ping_check_outcomes:
  assumes "subprocess_run w h (ping_argv (win32 w) cfg ip) [] (ping_timeout cfg + 1) = r"
      and "h1 = h @ [Run (ping_argv (win32 w) cfg ip) [] r]"
  shows "(\<forall>returncode. r = Inr returncode \<longrightarrow>
            ping_check w cfg ip h = (Inr (returncode = 0), h1))
       \<and> (\<forall>e h2. r = Inl e \<and> (e = TimeoutExpired \<or> e = OSError \<or> e = ValueError)
                 \<and> log_message w (''Ping error : '' @ exc_name e) ip ''WARNING'' h1 = (Inr (), h2)
                 \<longrightarrow> ping_check w cfg ip h = (Inr False, h2))
       \<and> (\<forall>e raised h2. r = Inl e \<and> (e = TimeoutExpired \<or> e = OSError \<or> e = ValueError)
                 \<and> log_message w (''Ping error : '' @ exc_name e) ip ''WARNING'' h1
                     = (Inl raised, h2)
                 \<longrightarrow> ping_check w cfg ip h = (Inl raised, h2))
       \<and> (\<forall>e. r = Inl e \<and> e \<noteq> TimeoutExpired \<and> e \<noteq> OSError \<and> e \<noteq> ValueError
                 \<longrightarrow> ping_check w cfg ip h = (Inl e, h1))
       \<and> take 3 (ping_argv (win32 w) cfg ip)
             = [''ping'', if win32 w then ''-n'' else ''-c'', ''1'']"
  using assms by (auto simp: ping_check_def Let_def ping_argv_def)

text \<open>
  Claim C9 at a host whose ping times out, on a console that encodes ASCII only.
  \<open>ping_check\<close> catches the \<open>TimeoutExpired\<close> of the subprocess; its handler logs the
  warning, whose icon the console cannot encode, and the \<open>print\<close> raises
  \<open>UnicodeEncodeError\<close>: the exception leaves \<open>ping_check\<close> in place of the value \<open>False\<close>.
\<close>

theorem ping_check_raises_in_handler:
  "ping_check ascii_console default_config ''192.168.0.7'' []
   = (Inl ValueError,
      [Run [''ping'', ''-c'', ''1'', ''-W'', ''2'', ''192.168.0.7''] [] (Inl TimeoutExpired),
       Print (''[2024-01-01 00:00:00] [192.168.0.7] '' @ [CHR 0xE2, CHR 0x9A, CHR 0xA0]
              @ '' Ping error : TimeoutExpired'')
         (Some ValueError)])"
  by code_simp

section \<open>Notification masking\<close>

theorem notify_ip_success_counterexample:
  "notification_enabled masked_config \<and> email_enabled masked_config
   \<and> notify_ip_success masked_config = []"
  by (simp add: masked_config_def default_config_def notify_ip_success_def)

text \<open>
  Claim C5, as the code has it. Each of the three notifications is dispatched exactly
  when the notification section is enabled, the event's tag is in \<open>notify_on\<close> and the
  email subsection is enabled; the \<open>complete\<close> notification also needs every host to
  have succeeded. The guard of \<open>ip_success\<close> in \<open>main\<close> tests \<open>notify_on\<close> like the
  other two.
\<close>

theorem notifications_masked:
  "notify_start cfg =
     (if notification_enabled cfg \<and> email_enabled cfg \<and> ''start'' \<in> set (notify_on cfg)
      then [''start''] else [])
   \<and> notify_ip_success cfg =
     (if notification_enabled cfg \<and> email_enabled cfg \<and> ''ip_success'' \<in> set (notify_on cfg)
      then [''ip_success''] else [])
   \<and> notify_complete cfg n_success n_ip =
     (if notification_enabled cfg \<and> email_enabled cfg \<and> ''complete'' \<in> set (notify_on cfg)
         \<and> n_success = n_ip
      then [''complete''] else [])"
  by (simp add: notify_start_def notify_ip_success_def notify_complete_def send_notification_def)

section \<open>Host addresses given to the transports\<close>

lemma format_ip_for_sftp_idem:
  "format_ip_for_sftp (format_ip_for_sftp ip) = format_ip_for_sftp ip"
  by (simp add: format_ip_for_sftp_def startswith_def)
lemma mkdir_each_extends: "\<exists>hs. snd (mkdir_each w cur ds h) = h @ hs"
proof (induction ds arbitrary: cur h)
  case Nil
  then show ?case by simp
next
  case (Cons d ds)
  define cur' where "cur' = (if cur \<noteq> [] then cur @ ''/'' @ d else ''/'' @ d)"
  define h1 where "h1 = h @ [SftpMkdir cur' (sftp_mkdir w h cur')]"
  define h2 where "h2 = h1 @ [SftpStat cur' (sftp_stat w h1 cur')]"
  from Cons.IH [of cur' h1] obtain a where a: "snd (mkdir_each w cur' ds h1) = h1 @ a" by blast
  from Cons.IH [of cur' h2] obtain b where b: "snd (mkdir_each w cur' ds h2) = h2 @ b" by blast
  have "snd (mkdir_each w cur (d # ds) h) = h1 @ a
        \<or> snd (mkdir_each w cur (d # ds) h) = h2 @ b
        \<or> snd (mkdir_each w cur (d # ds) h) = h2
        \<or> snd (mkdir_each w cur (d # ds) h) = h1"
    using a b unfolding mkdir_each.simps Let_def cur'_def [symmetric] h1_def [symmetric] h2_def [symmetric]
    by (simp split: option.splits sum.splits)
  then show ?case
    unfolding h2_def h1_def by (metis append.assoc append_Nil2)
qed

lemma check_remote_directory_extends: "\<exists>hs. check_remote_directory w p h = h @ hs"
  using mkdir_each_extends [of w "[]" _ h]
  by (simp add: check_remote_directory_def Let_def)

lemma paramiko_connects_first:
  assumes "has_paramiko w"
  shows "\<exists>c hs. snd (send_file_sftp_paramiko w cfg ip l r h) = h @ SftpConnect ip (ssh_port cfg) c # hs"
proof (cases "sftp_connect w h ip (ssh_port cfg)")
  case (Some e)
  then show ?thesis
    using assms by (simp add: send_file_sftp_paramiko_def Let_def)
next
  case None
  obtain hs0 where cr: "check_remote_directory w r (h @ [SftpConnect ip (ssh_port cfg) None])
                          = (h @ [SftpConnect ip (ssh_port cfg) None]) @ hs0"
    using check_remote_directory_extends by blast
  show ?thesis
    using assms None
    by (simp add: send_file_sftp_paramiko_def Let_def cr split: option.splits sum.splits)
qed

lemma subprocess_event:
  "\<exists>res. snd (send_file_sftp_subprocess w cfg ip l r h)
           = h @ [Run (sftp_argv cfg ip) (sftp_commands l r) res]"
  by (simp add: send_file_sftp_subprocess_def Let_def split: sum.splits)

lemma get_remote_file_hash_extends:
  "get_remote_file_hash w ip r h = (v, h') \<Longrightarrow> \<exists>hs. h' = h @ hs"
  by (auto simp: get_remote_file_hash_def ssh_connection_def Let_def
           split: option.splits sum.splits list.splits if_splits)

lemma pexpect_except_history: "snd (pexpect_except e h) = h"
  by (simp add: pexpect_except_def)

lemma verify_hash_extends: "\<exists>hs. snd (verify_hash w ip l r h) = h @ hs"
proof (cases "sha256_file w h l")
  case (Inl e)
  then show ?thesis
    by (simp add: verify_hash_def get_file_hash_def Let_def pexpect_except_history truthy_def)
next
  case (Inr digest)
  obtain v h' where g: "get_remote_file_hash w ip r (h @ [LocalHash l (Inr digest)]) = (v, h')"
    by (cases "get_remote_file_hash w ip r (h @ [LocalHash l (Inr digest)])") auto
  from get_remote_file_hash_extends [OF g] obtain hs where "h' = (h @ [LocalHash l (Inr digest)]) @ hs"
    by blast
  then show ?thesis
    using Inr g by (simp add: verify_hash_def get_file_hash_def Let_def)
qed

lemma pexpect_spawns_first:
  assumes "has_pexpect w"
  shows "\<exists>s hs. snd (send_file_sftp_pexpect w cfg ip l r h) = h @ PexpectSpawn (sftp_cmd cfg ip) s # hs"
proof (cases "pexpect_spawn w h (sftp_cmd cfg ip)")
  case (Inl e)
  then show ?thesis
    using assms by (simp add: send_file_sftp_pexpect_def Let_def pexpect_except_history)
next
  case (Inr index)
  define h1 where "h1 = h @ [PexpectSpawn (sftp_cmd cfg ip) (Inr index)]"
  define lines where "lines = pexpect_lines cfg index l r"
  have unfold: "send_file_sftp_pexpect w cfg ip l r h =
          (case pexpect_send w h1 lines of
             Inl e \<Rightarrow> pexpect_except e (h1 @ [PexpectSend lines (Inl e)])
           | Inr exitstatus \<Rightarrow>
               if exitstatus = Some 0
               then verify_hash w ip l r (h1 @ [PexpectSend lines (Inr exitstatus)])
               else (Inr False, h1 @ [PexpectSend lines (Inr exitstatus)]))"
    using assms Inr
    by (simp add: send_file_sftp_pexpect_def Let_def h1_def lines_def split: sum.splits)
  have "\<exists>hs. snd (send_file_sftp_pexpect w cfg ip l r h) = h1 @ hs"
  proof (cases "pexpect_send w h1 lines")
    case (Inl e)
    then show ?thesis by (simp add: unfold pexpect_except_history)
  next
    case x: (Inr exitstatus)
    show ?thesis
    proof (cases "exitstatus = Some 0")
      case True
      obtain hs0 where "snd (verify_hash w ip l r (h1 @ [PexpectSend lines (Inr exitstatus)]))
                         = (h1 @ [PexpectSend lines (Inr exitstatus)]) @ hs0"
        using verify_hash_extends by blast
      then show ?thesis using x True by (simp add: unfold)
    next
      case False
      then show ?thesis using x by (simp add: unfold)
    qed
  qed
  then show ?thesis by (auto simp: h1_def)
qed

lemma endswith_appendI: "s = a @ b \<Longrightarrow> endswith s b"
  by (simp add: endswith_def)

lemma sftp_cmd_host: "endswith (sftp_cmd cfg ip) (''@'' @ format_ip_for_sftp ip)"
  by (rule endswith_appendI
        [of _ "''sftp -P '' @ str_int (ssh_port cfg) @ '' '' @
               ''-o HostKeyAlgorithms=ssh-rsa '' @
               ''-o StrictHostKeyChecking=no '' @
               ''-o ConnectTimeout=10 '' @ ssh_user cfg"])
     (simp add: sftp_cmd_def)

lemma sftp_argv_host: "last (sftp_argv cfg ip) = ssh_user cfg @ ''@'' @ format_ip_for_sftp ip"
  by (simp add: sftp_argv_def)

lemma format_fde0: "format_ip_for_sftp ''fde0::1'' = ''[fde0::1]''"
  by (simp add: format_ip_for_sftp_def startswith_def)

lemma record_complete_ip_fresh: "record_complete_ip NoFault ip None = Some (ip @ [CHR 0x0A])"
  by (simp add: record_complete_ip_def)

theorem paramiko_host_counterexample:
  "take 1 (snd (send_file_sftp_paramiko both_world default_config ''fde0::1''
                  ''file/hello.bin'' ''/tmp/hello.bin.BMT'' []))
     = [SftpConnect ''fde0::1'' 22 None]
   \<and> format_ip_for_sftp ''fde0::1'' = ''[fde0::1]''"
  by code_simp

text \<open>
  Claim C8, as the code has it. \<open>format_ip_for_sftp\<close> brackets an address exactly when
  it contains a colon and does not start with \<open>[\<close>, and is idempotent; \<open>fde0::1\<close> becomes
  \<open>[fde0::1]\<close>. The two backends that drive the \<open>sftp\<close> binary are given the formatted
  address: the expect-driven backend spawns a command line that ends in
  \<open>user@<formatted address>\<close>, the subprocess backend passes it as the last argument. The
  native backend connects to the address as it is, without brackets. \<open>complete.txt\<close>
  records the address as it is.
\<close>

theorem sftp_host_bracketing:
  "format_ip_for_sftp ip =
     (if CHR '':'' \<in> set ip \<and> \<not> startswith ip ''['' then ''['' @ ip @ '']'' else ip)
   \<and> format_ip_for_sftp (format_ip_for_sftp ip) = format_ip_for_sftp ip
   \<and> format_ip_for_sftp ''fde0::1'' = ''[fde0::1]''
   \<and> (has_pexpect w \<longrightarrow>
        (\<exists>s hs. snd (send_file_sftp_pexpect w cfg ip l r h)
                  = h @ PexpectSpawn (sftp_cmd cfg ip) s # hs)
        \<and> endswith (sftp_cmd cfg ip) (''@'' @ format_ip_for_sftp ip))
   \<and> (\<exists>res. snd (send_file_sftp_subprocess w cfg ip l r h)
               = h @ [Run (sftp_argv cfg ip) (sftp_commands l r) res])
   \<and> last (sftp_argv cfg ip) = ssh_user cfg @ ''@'' @ format_ip_for_sftp ip
   \<and> (has_paramiko w \<longrightarrow>
        (\<exists>c hs. snd (send_file_sftp_paramiko w cfg ip l r h)
                  = h @ SftpConnect ip (ssh_port cfg) c # hs))
   \<and> record_complete_ip NoFault ip None = Some (ip @ [CHR 0x0A])"
proof (intro conjI impI)
  show "format_ip_for_sftp ip =
     (if CHR '':'' \<in> set ip \<and> \<not> startswith ip ''['' then ''['' @ ip @ '']'' else ip)"
    by (simp add: format_ip_for_sftp_def)
  show "format_ip_for_sftp (format_ip_for_sftp ip) = format_ip_for_sftp ip"
    by (rule format_ip_for_sftp_idem)
  show "format_ip_for_sftp ''fde0::1'' = ''[fde0::1]''"
    by (rule format_fde0)
  show "\<exists>s hs. snd (send_file_sftp_pexpect w cfg ip l r h)
                  = h @ PexpectSpawn (sftp_cmd cfg ip) s # hs" if "has_pexpect w"
    using that by (rule pexpect_spawns_first)
  show "endswith (sftp_cmd cfg ip) (''@'' @ format_ip_for_sftp ip)"
    by (rule sftp_cmd_host)
  show "\<exists>res. snd (send_file_sftp_subprocess w cfg ip l r h)
               = h @ [Run (sftp_argv cfg ip) (sftp_commands l r) res]"
    by (rule subprocess_event)
  show "last (sftp_argv cfg ip) = ssh_user cfg @ ''@'' @ format_ip_for_sftp ip"
    by (rule sftp_argv_host)
  show "\<exists>c hs. snd (send_file_sftp_paramiko w cfg ip l r h)
                  = h @ SftpConnect ip (ssh_port cfg) c # hs" if "has_paramiko w"
    using that by (rule paramiko_connects_first)
  show "record_complete_ip NoFault ip None = Some (ip @ [CHR 0x0A])"
    by (rule record_complete_ip_fresh)
qed

theorem sftp_host_bracketing_witness:
  "(\<exists>s hs. snd (send_file_sftp_pexpect both_world default_config ''fde0::1''
                  ''file/hello.bin'' ''/tmp/hello.bin.BMT'' [])
             = PexpectSpawn (sftp_cmd default_config ''fde0::1'') s # hs)
   \<and> endswith (sftp_cmd default_config ''fde0::1'') ''@[fde0::1]''
   \<and> last (sftp_argv default_config ''fde0::1'') = ''root@[fde0::1]''
   \<and> (\<exists>c hs. snd (send_file_sftp_paramiko both_world default_config ''fde0::1''
                  ''file/hello.bin'' ''/tmp/hello.bin.BMT'' [])
             = SftpConnect ''fde0::1'' 22 c # hs)
   \<and> record_complete_ip NoFault ''fde0::1'' None = Some (''fde0::1'' @ [CHR 0x0A])"
proof -
  have p: "has_pexpect both_world" "has_paramiko both_world"
    by (simp_all add: both_world_def calm_world_def)
  have d: "ssh_port default_config = 22" "ssh_user default_config = ''root''"
    by (simp_all add: default_config_def)
  note T = sftp_host_bracketing [of "''fde0::1''" both_world default_config
              "''file/hello.bin''" "''/tmp/hello.bin.BMT''" "[]"]
  note c2 = conjunct2
  have pe: "(\<exists>s hs. snd (send_file_sftp_pexpect both_world default_config ''fde0::1''
                  ''file/hello.bin'' ''/tmp/hello.bin.BMT'' [])
             = [] @ PexpectSpawn (sftp_cmd default_config ''fde0::1'') s # hs)
            \<and> endswith (sftp_cmd default_config ''fde0::1'')
                      (''@'' @ format_ip_for_sftp ''fde0::1'')"
    using T [THEN c2, THEN c2, THEN c2, THEN conjunct1] p(1) by (rule mp)
  from pe have 1: "\<exists>s hs. snd (send_file_sftp_pexpect both_world default_config ''fde0::1''
                  ''file/hello.bin'' ''/tmp/hello.bin.BMT'' [])
             = [] @ PexpectSpawn (sftp_cmd default_config ''fde0::1'') s # hs"
    by (rule conjunct1)
  from pe have 2: "endswith (sftp_cmd default_config ''fde0::1'')
                      (''@'' @ format_ip_for_sftp ''fde0::1'')"
    by (rule conjunct2)
  have 3: "last (sftp_argv default_config ''fde0::1'')
                    = ssh_user default_config @ ''@'' @ format_ip_for_sftp ''fde0::1''"
    by (rule T [THEN c2, THEN c2, THEN c2, THEN c2, THEN c2, THEN conjunct1])
  have 4: "\<exists>c hs. snd (send_file_sftp_paramiko both_world default_config ''fde0::1''
                  ''file/hello.bin'' ''/tmp/hello.bin.BMT'' [])
             = [] @ SftpConnect ''fde0::1'' (ssh_port default_config) c # hs"
    using T [THEN c2, THEN c2, THEN c2, THEN c2, THEN c2, THEN c2, THEN conjunct1] p(2)
    by (rule mp)
  have 5: "record_complete_ip NoFault ''fde0::1'' None = Some (''fde0::1'' @ [CHR 0x0A])"
    by (rule T [THEN c2, THEN c2, THEN c2, THEN c2, THEN c2, THEN c2, THEN c2])
  show ?thesis
  proof (intro conjI)
    show "\<exists>s hs. snd (send_file_sftp_pexpect both_world default_config ''fde0::1''
                  ''file/hello.bin'' ''/tmp/hello.bin.BMT'' [])
             = PexpectSpawn (sftp_cmd default_config ''fde0::1'') s # hs"
      using 1 by (simp only: append_Nil)
    show "endswith (sftp_cmd default_config ''fde0::1'') ''@[fde0::1]''"
      using 2 by (simp add: format_fde0)
    show "last (sftp_argv default_config ''fde0::1'') = ''root@[fde0::1]''"
      using 3 by (simp add: format_fde0 d)
    show "\<exists>c hs. snd (send_file_sftp_paramiko both_world default_config ''fde0::1''
                  ''file/hello.bin'' ''/tmp/hello.bin.BMT'' [])
             = SftpConnect ''fde0::1'' 22 c # hs"
      using 4 by (simp only: append_Nil d)
    show "record_complete_ip NoFault ''fde0::1'' None = Some (''fde0::1'' @ [CHR 0x0A])"
      by (rule 5)
  qed
qed

section \<open>Integrity check of the expect-driven backend\<close>






section \<open>The move step without the SSH library\<close>








section \<open>Remote directories\<close>

text \<open>
  Claim C4 at a remote path whose directories do not exist yet, \<open>/new/dir/hello.bin.BMT\<close>.
  The native backend creates \<open>/new\<close> and \<open>/new/dir\<close> before its \<open>put\<close>. The expect-driven
  backend sends only the password, \<open>rm\<close>, \<open>put\<close> and \<open>quit\<close>, and the subprocess backend
  only \<open>put\<close> and \<open>quit\<close>: neither creates a directory.
\<close>

theorem mkdir_only_in_paramiko_backend:
  "snd (send_file_sftp_paramiko both_world default_config ''10.0.0.5''
          ''file/hello.bin'' ''/new/dir/hello.bin.BMT'' [])
     = [SftpConnect ''10.0.0.5'' 22 None,
        SftpMkdir ''/new'' None,
        SftpMkdir ''/new/dir'' None,
        SftpPut ''file/hello.bin'' ''/new/dir/hello.bin.BMT'' None,
        SftpStat ''/new/dir/hello.bin.BMT'' (Inr 1024),
        LocalStat ''file/hello.bin'' (Inr 1024)]
   \<and> take 2 (snd (send_file_sftp_pexpect both_world default_config ''10.0.0.5''
                  ''file/hello.bin'' ''/new/dir/hello.bin.BMT'' []))
     = [PexpectSpawn (sftp_cmd default_config ''10.0.0.5'') (Inr 0),
        PexpectSend [[], ''rm /new/dir/hello.bin.BMT'',
                     ''put file/hello.bin /new/dir/hello.bin.BMT'', ''quit'']
          (Inr (Some 0))]
   \<and> list_all (\<lambda>e. case e of SftpMkdir p x \<Rightarrow> False | _ \<Rightarrow> True)
        (snd (send_file_sftp_pexpect both_world default_config ''10.0.0.5''
                ''file/hello.bin'' ''/new/dir/hello.bin.BMT'' []))
   \<and> snd (send_file_sftp_subprocess both_world default_config ''10.0.0.5''
            ''file/hello.bin'' ''/new/dir/hello.bin.BMT'' [])
     = [Run (sftp_argv default_config ''10.0.0.5'')
          (''put file/hello.bin /new/dir/hello.bin.BMT'' @ [CHR 0x0A] @ ''quit'' @ [CHR 0x0A])
          (Inr 0)]"
  by code_simp

section \<open>The SSH readiness gate\<close>

lemma log_message_events:
  "\<exists>ls. snd (log_message w message ip status h) = h @ ls \<and> list_all is_log ls"
proof (cases "console_print w h
                (if ip \<noteq> []
                 then ''['' @ clock w h @ ''] ['' @ ip @ ''] ''
                      @ (if (if status \<noteq> [] then status_map_get status else []) \<noteq> []
                         then (if status \<noteq> [] then status_map_get status else []) @ '' ''
                         else [])
                      @ message
                 else ''['' @ clock w h @ ''] ''
                      @ (if (if status \<noteq> [] then status_map_get status else []) \<noteq> []
                         then (if status \<noteq> [] then status_map_get status else []) @ '' ''
                         else [])
                      @ message)")
  case None
  then show ?thesis
    by (simp add: log_message_def Let_def split: option.splits)
next
  case (Some e)
  then show ?thesis
    by (simp add: log_message_def Let_def)
qed

lemma ping_check_event:
  "\<exists>e ls. snd (ping_check w cfg ip h) = h @ e # ls \<and> is_ping e \<and> list_all is_log ls
          \<and> (ping_ok e \<longleftrightarrow> fst (ping_check w cfg ip h) = Inr True)
          \<and> (fst (ping_check w cfg ip h) = Inr True \<longrightarrow> ls = [])"
proof -
  define argv where "argv = ping_argv (win32 w) cfg ip"
  define r where "r = subprocess_run w h argv [] (ping_timeout cfg + 1)"
  define e where "e = Run argv [] r"
  have pe: "is_ping e"
    by (simp add: e_def argv_def ping_argv_def)
  have ok: "ping_ok e \<longleftrightarrow> r = Inr 0"
    by (simp add: e_def argv_def ping_argv_def)
  show ?thesis
  proof (cases r)
    case (Inr returncode)
    then have "ping_check w cfg ip h = (Inr (returncode = 0), h @ [e])"
      by (simp add: ping_check_def Let_def e_def r_def argv_def)
    with pe ok Inr show ?thesis by simp
  next
    case (Inl x)
    show ?thesis
    proof (cases "x = TimeoutExpired \<or> x = OSError \<or> x = ValueError")
      case False
      with Inl have "ping_check w cfg ip h = (Inl x, h @ [e])"
        by (simp add: ping_check_def Let_def e_def r_def argv_def)
      with pe ok Inl show ?thesis by simp
    next
      case True
      obtain r2 h2 where lm:
        "log_message w (''Ping error : '' @ exc_name x) ip ''WARNING'' (h @ [e]) = (r2, h2)"
        by (cases "log_message w (''Ping error : '' @ exc_name x) ip ''WARNING'' (h @ [e])") auto
      from log_message_events [of w "''Ping error : '' @ exc_name x" ip "''WARNING''" "h @ [e]"] lm
      obtain ls where ls: "h2 = (h @ [e]) @ ls" "list_all is_log ls" by auto
      from True Inl lm have pc:
        "ping_check w cfg ip h = (case r2 of Inl raised \<Rightarrow> (Inl raised, h2) | Inr u \<Rightarrow> (Inr False, h2))"
        using r_def [symmetric] argv_def [symmetric] e_def [symmetric]
        by (simp add: ping_check_def Let_def)
      have "snd (ping_check w cfg ip h) = h @ e # ls" "fst (ping_check w cfg ip h) \<noteq> Inr True"
        using pc ls by (simp_all split: sum.splits)
      with pe ok Inl ls(2) show ?thesis by simp
    qed
  qed
qed

lemma log_not_ping_ok: "list_all is_log ls \<Longrightarrow> \<not> list_ex ping_ok ls"
proof (induction ls)
  case Nil
  then show ?case by simp
next
  case (Cons a ls)
  then show ?case by (cases a) simp_all
qed

lemma log_ping_or_log: "list_all is_log ls \<Longrightarrow> list_all (\<lambda>e. is_ping e \<or> is_log e) ls"
  by (induction ls) simp_all

lemma wait_for_ping_returns:
  assumes a: "wait_for_ping w cfg ip h = Some y"
  shows "fst y \<noteq> Inr False
         \<and> (\<exists>hs. snd y = h @ hs \<and> hs \<noteq> [] \<and> list_all (\<lambda>e. is_ping e \<or> is_log e) hs
                \<and> \<not> list_ex ping_ok (butlast hs)
                \<and> (fst y = Inr True \<longrightarrow> ping_ok (last hs)))"
proof (rule wait_for_ping.raw_induct
         [where P = "\<lambda>w cfg ip h y.
              fst y \<noteq> Inr False
              \<and> (\<exists>hs. snd y = h @ hs \<and> hs \<noteq> [] \<and> list_all (\<lambda>e. is_ping e \<or> is_log e) hs
                     \<and> \<not> list_ex ping_ok (butlast hs)
                     \<and> (fst y = Inr True \<longrightarrow> ping_ok (last hs)))",
          OF _ a])
  fix f w cfg ip h y
  assume IH: "\<And>w cfg ip h y. f w cfg ip h = Some y \<Longrightarrow>
              fst y \<noteq> Inr False
              \<and> (\<exists>hs. snd y = h @ hs \<and> hs \<noteq> [] \<and> list_all (\<lambda>e. is_ping e \<or> is_log e) hs
                     \<and> \<not> list_ex ping_ok (butlast hs)
                     \<and> (fst y = Inr True \<longrightarrow> ping_ok (last hs)))"
    and body: "(case ping_check w cfg ip h of
                  (Inl e, h') \<Rightarrow> Some (Inl e, h')
                | (Inr ok, h') \<Rightarrow> if ok then Some (Inr True, h') else f w cfg ip h') = Some y"
  obtain r0 h0 where pc: "ping_check w cfg ip h = (r0, h0)"
    by (cases "ping_check w cfg ip h") auto
  from ping_check_event [of w cfg ip h] pc obtain e ls where
    e: "h0 = h @ e # ls" "is_ping e" "list_all is_log ls" "ping_ok e \<longleftrightarrow> r0 = Inr True"
       "r0 = Inr True \<longrightarrow> ls = []"
    by auto
  have lg: "\<not> list_ex ping_ok ls" "list_all (\<lambda>e. is_ping e \<or> is_log e) ls"
    using e(3) by (simp_all add: log_not_ping_ok log_ping_or_log)
  have nb: "\<not> ping_ok e \<Longrightarrow> \<not> list_ex ping_ok (butlast (e # ls))"
  proof
    assume n: "\<not> ping_ok e" and "list_ex ping_ok (butlast (e # ls))"
    then obtain x where x: "x \<in> set (butlast (e # ls))" and px: "ping_ok x"
      unfolding list_ex_iff by blast
    from x have "x \<in> set (e # ls)" by (rule in_set_butlastD)
    with px n lg(1) show False by (auto simp: list_ex_iff)
  qed
  show "fst y \<noteq> Inr False
        \<and> (\<exists>hs. snd y = h @ hs \<and> hs \<noteq> [] \<and> list_all (\<lambda>e. is_ping e \<or> is_log e) hs
               \<and> \<not> list_ex ping_ok (butlast hs)
               \<and> (fst y = Inr True \<longrightarrow> ping_ok (last hs)))"
  proof (cases r0)
    case (Inl x)
    with body pc have y: "y = (Inl x, h0)" by simp
    from Inl e have "\<not> ping_ok e" by simp
    from nb [OF this] have
      "snd y = h @ (e # ls) \<and> e # ls \<noteq> [] \<and> list_all (\<lambda>e. is_ping e \<or> is_log e) (e # ls)
       \<and> \<not> list_ex ping_ok (butlast (e # ls))
       \<and> (fst y = Inr True \<longrightarrow> ping_ok (last (e # ls)))"
      using y e(1,2) lg(2) by simp
    moreover have "fst y \<noteq> Inr False" using y by simp
    ultimately show ?thesis by blast
  next
    case (Inr ok)
    show ?thesis
    proof (cases ok)
      case True
      with body pc Inr have y: "y = (Inr True, h0)" by simp
      from e Inr True have "ls = []" "ping_ok e" by simp_all
      with e(1,2) y have
        "snd y = h @ [e] \<and> [e] \<noteq> [] \<and> list_all (\<lambda>e. is_ping e \<or> is_log e) [e]
         \<and> \<not> list_ex ping_ok (butlast [e])
         \<and> (fst y = Inr True \<longrightarrow> ping_ok (last [e]))"
        by simp
      moreover have "fst y \<noteq> Inr False" using y by simp
      ultimately show ?thesis by blast
    next
      case False
      with body pc Inr have rec: "f w cfg ip h0 = Some y" by simp
      from IH [OF rec] obtain hs where
        hs: "fst y \<noteq> Inr False" "snd y = h0 @ hs" "hs \<noteq> []"
            "list_all (\<lambda>e. is_ping e \<or> is_log e) hs"
            "\<not> list_ex ping_ok (butlast hs)" "fst y = Inr True \<longrightarrow> ping_ok (last hs)"
        by blast
      from e Inr False have ne: "\<not> ping_ok e" by simp
      have bl: "butlast ((e # ls) @ hs) = (e # ls) @ butlast hs"
        using hs(3) by (simp add: butlast_append)
      have "snd y = h @ ((e # ls) @ hs) \<and> (e # ls) @ hs \<noteq> []
            \<and> list_all (\<lambda>e. is_ping e \<or> is_log e) ((e # ls) @ hs)
            \<and> \<not> list_ex ping_ok (butlast ((e # ls) @ hs))
            \<and> (fst y = Inr True \<longrightarrow> ping_ok (last ((e # ls) @ hs)))"
        unfolding bl using hs e(1,2) ne lg by simp
      with hs(1) show ?thesis by blast
    qed
  qed
qed


lemma ssh_probe_result:
  assumes "ssh_probe w ip h = (ok, h')"
  shows "(\<exists>hs. h' = h @ hs)
         \<and> (ok \<longrightarrow> (\<exists>hs res. h' = h @ hs @ [SshExec ''echo test'' (Inr res)]
                                \<and> exit_status res = 0))"
  using assms
  by (auto simp: ssh_probe_def ssh_connection_def Let_def
           split: option.splits sum.splits if_splits)

lemma ssh_attempts_result:
  "ssh_attempts w ip k h = (ok, h') \<Longrightarrow>
   (\<exists>hs. h' = h @ hs)
   \<and> (ok \<longrightarrow> (\<exists>hs res. h' = h @ hs @ [SshExec ''echo test'' (Inr res)]
                          \<and> exit_status res = 0))"
proof (induction k arbitrary: h)
  case 0
  then show ?case by simp
next
  case (Suc k)
  obtain ok1 h1 where p: "ssh_probe w ip h = (ok1, h1)"
    by (cases "ssh_probe w ip h") auto
  from ssh_probe_result [OF p] obtain hs1 where
    hs1: "h1 = h @ hs1"
    and ok1: "ok1 \<longrightarrow> (\<exists>hs res. h1 = h @ hs @ [SshExec ''echo test'' (Inr res)]
                                \<and> exit_status res = 0)"
    by blast
  show ?case
  proof (cases ok1)
    case True
    with Suc.prems p have "ok = True" "h' = h1" by simp_all
    with hs1 ok1 True show ?thesis by blast
  next
    case False
    with Suc.prems p have rec: "ssh_attempts w ip k h1 = (ok, h')" by simp
    from Suc.IH [OF rec] obtain hs2 where
      hs2: "h' = h1 @ hs2"
      and ok2: "ok \<longrightarrow> (\<exists>hs res. h' = h1 @ hs @ [SshExec ''echo test'' (Inr res)]
                                \<and> exit_status res = 0)"
      by blast
    have 1: "\<exists>hs. h' = h @ hs" using hs1 hs2 by simp
    have 2: "ok \<longrightarrow> (\<exists>hs res. h' = h @ hs @ [SshExec ''echo test'' (Inr res)]
                                \<and> exit_status res = 0)"
    proof
      assume ok
      with ok2 obtain hs res where
        "h' = h1 @ hs @ [SshExec ''echo test'' (Inr res)]" "exit_status res = 0" by blast
      with hs1 have "h' = h @ (hs1 @ hs) @ [SshExec ''echo test'' (Inr res)] \<and> exit_status res = 0"
        by simp
      then show "\<exists>hs res. h' = h @ hs @ [SshExec ''echo test'' (Inr res)] \<and> exit_status res = 0"
        by blast
    qed
    from 1 2 show ?thesis by simp
  qed
qed

lemma wait_for_ssh_loop_returns:
  assumes a: "wait_for_ssh_loop w cfg ip h = Some y"
  shows "fst y \<noteq> Inr False
         \<and> (fst y = Inr True \<longrightarrow>
              (\<exists>hs res. snd y = h @ hs @ [SshExec ''echo test'' (Inr res)]
                         \<and> exit_status res = 0))
         \<and> (\<exists>hs. snd y = h @ hs)"
proof (rule wait_for_ssh_loop.raw_induct
         [where P = "\<lambda>w cfg ip h y.
              fst y \<noteq> Inr False
              \<and> (fst y = Inr True \<longrightarrow>
                   (\<exists>hs res. snd y = h @ hs @ [SshExec ''echo test'' (Inr res)]
                              \<and> exit_status res = 0))
              \<and> (\<exists>hs. snd y = h @ hs)",
          OF _ a])
  fix f w cfg ip h y
  assume IH: "\<And>w cfg ip h y. f w cfg ip h = Some y \<Longrightarrow>
              fst y \<noteq> Inr False
              \<and> (fst y = Inr True \<longrightarrow>
                   (\<exists>hs res. snd y = h @ hs @ [SshExec ''echo test'' (Inr res)]
                              \<and> exit_status res = 0))
              \<and> (\<exists>hs. snd y = h @ hs)"
    and body: "(case wait_for_ping w cfg ip h of
                  None \<Rightarrow> None
                | Some (Inl e, h1) \<Rightarrow> Some (Inl e, h1)
                | Some (Inr b, h1) \<Rightarrow>
                    (case ssh_attempts w ip (nat (ssh_attempts_per_round cfg)) h1 of
                       (ok, h2) \<Rightarrow> if ok then Some (Inr True, h2) else f w cfg ip h2)) = Some y"
  from body obtain r1 h1 where wp: "wait_for_ping w cfg ip h = Some (r1, h1)"
    by (cases "wait_for_ping w cfg ip h") auto
  from wait_for_ping_returns [OF wp] obtain hs1 where hs1: "h1 = h @ hs1"
    by auto
  show "fst y \<noteq> Inr False
        \<and> (fst y = Inr True \<longrightarrow>
             (\<exists>hs res. snd y = h @ hs @ [SshExec ''echo test'' (Inr res)]
                        \<and> exit_status res = 0))
        \<and> (\<exists>hs. snd y = h @ hs)"
  proof (cases r1)
    case (Inl e)
    with body wp have "y = (Inl e, h1)" by simp
    with hs1 show ?thesis by simp
  next
    case (Inr b)
    obtain ok h2 where sa: "ssh_attempts w ip (nat (ssh_attempts_per_round cfg)) h1 = (ok, h2)"
      by (cases "ssh_attempts w ip (nat (ssh_attempts_per_round cfg)) h1") auto
    from ssh_attempts_result [OF sa] obtain hs2 where
      hs2: "h2 = h1 @ hs2"
      and okc: "ok \<longrightarrow> (\<exists>hs res. h2 = h1 @ hs @ [SshExec ''echo test'' (Inr res)]
                                \<and> exit_status res = 0)"
      by blast
    show ?thesis
    proof (cases ok)
      case True
      with body wp Inr sa have y: "y = (Inr True, h2)" by simp
      from okc True obtain hs res where
        "h2 = h1 @ hs @ [SshExec ''echo test'' (Inr res)]" "exit_status res = 0" by blast
      with hs1 have "h2 = h @ (hs1 @ hs) @ [SshExec ''echo test'' (Inr res)] \<and> exit_status res = 0"
        by simp
      then have "\<exists>hs res. h2 = h @ hs @ [SshExec ''echo test'' (Inr res)] \<and> exit_status res = 0"
        by blast
      moreover have "\<exists>hs. h2 = h @ hs" using hs1 hs2 by simp
      ultimately show ?thesis using y by simp
    next
      case False
      with body wp Inr sa have rec: "f w cfg ip h2 = Some y" by simp
      from IH [OF rec] have
        1: "fst y \<noteq> Inr False"
        and 2: "fst y = Inr True \<longrightarrow>
                 (\<exists>hs res. snd y = h2 @ hs @ [SshExec ''echo test'' (Inr res)]
                            \<and> exit_status res = 0)"
        and 3: "\<exists>hs. snd y = h2 @ hs"
        by blast+
      have h2h: "h2 = h @ (hs1 @ hs2)" using hs1 hs2 by simp
      have two: "fst y = Inr True \<longrightarrow>
                 (\<exists>hs res. snd y = h @ hs @ [SshExec ''echo test'' (Inr res)]
                            \<and> exit_status res = 0)"
      proof
        assume "fst y = Inr True"
        with 2 obtain hs res where
          "snd y = h2 @ hs @ [SshExec ''echo test'' (Inr res)]" "exit_status res = 0" by blast
        with h2h have "snd y = h @ (hs1 @ hs2 @ hs) @ [SshExec ''echo test'' (Inr res)]
                       \<and> exit_status res = 0"
          by simp
        then show "\<exists>hs res. snd y = h @ hs @ [SshExec ''echo test'' (Inr res)]
                            \<and> exit_status res = 0"
          by blast
      qed
      from 3 obtain hs3 where "snd y = h2 @ hs3" by blast
      with h2h have "snd y = h @ (hs1 @ hs2 @ hs3)" by simp
      then have three: "\<exists>hs. snd y = h @ hs" by blast
      from 1 two three show ?thesis by simp
    qed
  qed
qed











section \<open>The completion ledger\<close>

lemma split_where_line:
  assumes "\<forall>c\<in>set l. \<not> P c" and "P n"
  shows "split_where P (l @ n # rest) = l # split_where P rest"
  using assms
proof (induction l)
  case Nil
  then show ?case by simp
next
  case (Cons x xs)
  then show ?case by simp
qed

lemma stripped_lines_Nil: "stripped_lines [] = []"
  by (simp add: stripped_lines_def strip_def)

lemma stripped_lines_ledger:
  assumes "\<forall>x\<in>set ips. x \<noteq> [] \<and> strip x = x \<and> (\<forall>c\<in>set x. \<not> is_newline c)"
  shows "stripped_lines (concat (map (\<lambda>ip. ip @ [CHR 0x0A]) ips)) = ips"
  using assms
proof (induction ips)
  case Nil
  then show ?case by (simp add: stripped_lines_Nil)
next
  case (Cons ip ips)
  have nl: "is_newline (CHR 0x0A)" by (simp add: is_newline_def)
  from Cons.prems have ip: "ip \<noteq> []" "strip ip = ip" "\<forall>c\<in>set ip. \<not> is_newline c"
    by auto
  have "split_where is_newline (ip @ CHR 0x0A # concat (map (\<lambda>ip. ip @ [CHR 0x0A]) ips))
          = ip # split_where is_newline (concat (map (\<lambda>ip. ip @ [CHR 0x0A]) ips))"
    using ip(3) nl by (rule split_where_line)
  then have "stripped_lines (concat (map (\<lambda>ip. ip @ [CHR 0x0A]) (ip # ips)))
          = ip # stripped_lines (concat (map (\<lambda>ip. ip @ [CHR 0x0A]) ips))"
    using ip by (simp add: stripped_lines_def)
  with Cons show ?case by simp
qed

lemma stripped_lines_wf:
  assumes "x \<in> set (stripped_lines text)"
  shows "x \<noteq> [] \<and> strip x = x \<and> (\<forall>c\<in>set x. \<not> is_newline c)"
proof -
  from assms obtain l where l: "l \<in> set (split_where is_newline text)" "x = strip l" "x \<noteq> []"
    by (auto simp: stripped_lines_def)
  have "\<forall>c\<in>set l. \<not> is_newline c"
    using split_where_no_sep [OF l(1)] by blast
  then have "\<forall>c\<in>set x. \<not> is_newline c"
    using set_strip [of l] l(2) by blast
  moreover have "strip x = x"
    using l(2) strip_idem by simp
  ultimately show ?thesis using l(3) by simp
qed

lemma read_ip_list_wf:
  "x \<in> set (read_ip_list f) \<Longrightarrow> x \<noteq> [] \<and> strip x = x \<and> (\<forall>c\<in>set x. \<not> is_newline c)"
  using stripped_lines_wf by (cases f) (auto simp: read_ip_list_def)

lemma record_complete_ip_ledger:
  assumes wf: "\<forall>x\<in>set (ip # ips). x \<noteq> [] \<and> strip x = x \<and> (\<forall>c\<in>set x. \<not> is_newline c)"
      and ledger: "txt = (if ips = [] then None
                                 else Some (concat (map (\<lambda>ip. ip @ [CHR 0x0A]) ips)))"
  shows "record_complete_ip NoFault ip txt =
           Some (concat (map (\<lambda>ip. ip @ [CHR 0x0A]) (if ip \<in> set ips then ips else ips @ [ip])))"
proof (cases "ips = []")
  case True
  with ledger show ?thesis by (simp add: record_complete_ip_def)
next
  case False
  from wf have "\<forall>x\<in>set ips. x \<noteq> [] \<and> strip x = x \<and> (\<forall>c\<in>set x. \<not> is_newline c)"
    by simp
  from stripped_lines_ledger [OF this]
  have "set (stripped_lines (concat (map (\<lambda>ip. ip @ [CHR 0x0A]) ips))) = set ips"
    by simp
  with False ledger show ?thesis
    by (simp add: record_complete_ip_def)
qed

section \<open>The round loop\<close>

lemma send_single_file_not_False:
  assumes a: "send_single_file w cfg ip filename l r move h = Some y"
  shows "fst y \<noteq> Inr False"
proof (rule send_single_file.raw_induct
         [where P = "\<lambda>w cfg ip filename l r move h y. fst y \<noteq> Inr False", OF _ a])
  fix f w cfg ip filename l r move h y
  assume IH: "\<And>w cfg ip filename l r move h y.
                f w cfg ip filename l r move h = Some y \<Longrightarrow> fst y \<noteq> Inr False"
    and body: "(case send_file_with_fallback w cfg ip l r h of
        (Inl e, h1) \<Rightarrow> Some (Inl e, h1)
      | (Inr success, h1) \<Rightarrow>
          (if success
           then (if move \<and> has_paramiko w
                 then (case execute_remote_commands w ip r filename h1 of
                         (moved, h2) \<Rightarrow>
                           (if moved then Some (Inr True, h2)
                            else f w cfg ip filename l r move h2))
                 else Some (Inr True, h1))
           else f w cfg ip filename l r move h1)) = Some y"
  obtain r1 h1 where fb: "send_file_with_fallback w cfg ip l r h = (r1, h1)"
    by (cases "send_file_with_fallback w cfg ip l r h") auto
  show "fst y \<noteq> Inr False"
  proof (cases r1)
    case (Inl e)
    with body fb show ?thesis by auto
  next
    case (Inr success)
    show ?thesis
    proof (cases success)
      case False
      with body fb Inr have "f w cfg ip filename l r move h1 = Some y" by simp
      then show ?thesis by (rule IH)
    next
      case True
      show ?thesis
      proof (cases "move \<and> has_paramiko w")
        case False
        with body fb Inr True have "y = (Inr True, h1)" by auto
        then show ?thesis by simp
      next
        case mv: True
        obtain moved h2 where ex: "execute_remote_commands w ip r filename h1 = (moved, h2)"
          by (cases "execute_remote_commands w ip r filename h1") auto
        show ?thesis
        proof (cases moved)
          case True
          with body fb Inr \<open>success\<close> mv ex have "y = (Inr True, h2)" by auto
          then show ?thesis by simp
        next
          case False
          with body fb Inr \<open>success\<close> mv ex
          have "f w cfg ip filename l r move h2 = Some y" by simp
          then show ?thesis by (rule IH)
        qed
      qed
    qed
  qed
qed

lemma send_files_chain:
  "send_files w cfg ip move fm h = Some (Inr (), h') \<Longrightarrow>
   \<exists>hs. length hs = length fm + 1 \<and> hs ! 0 = h \<and> last hs = h'
        \<and> (\<forall>i<length fm. entry_done w cfg ip move (fm ! i) (hs ! i) (hs ! Suc i))"
proof (induction fm arbitrary: h)
  case Nil
  then have "length [h] = length ([] :: (string \<times> string) list) + 1 \<and> [h] ! 0 = h \<and> last [h] = h'"
    by simp
  then show ?case by (metis less_nat_zero_code list.size(3))
next
  case (Cons entry rest)
  obtain filename remote_path where entry: "entry = (filename, remote_path)"
    by (cases entry) auto
  define l where "l = os_path_join FILE_DIR filename"
  define h1 where "h1 = h @ [LocalExists l (path_exists w h l)]"
  have "\<exists>h2. entry_done w cfg ip move entry h h2
             \<and> send_files w cfg ip move rest h2 = Some (Inr (), h')"
  proof (cases "path_exists w h l")
    case False
    then have "send_files w cfg ip move rest h1 = Some (Inr (), h')"
      using Cons.prems by (simp add: entry Let_def l_def h1_def)
    moreover have "entry_done w cfg ip move entry h h1"
      using False by (simp add: entry_done_def entry Let_def l_def h1_def)
    ultimately show ?thesis by blast
  next
    case True
    with Cons.prems obtain y where
      y: "send_single_file w cfg ip filename l (make_remote_file_path remote_path filename)
            move h1 = Some y"
      by (auto simp: entry Let_def l_def h1_def split: option.splits)
    obtain r2 h2 where yy: "y = (r2, h2)" by (cases y) auto
    from send_single_file_not_False [OF y] yy have nf: "r2 \<noteq> Inr False" by simp
    have "r2 = Inr True \<and> send_files w cfg ip move rest h2 = Some (Inr (), h')"
      using Cons.prems True y yy nf
      by (cases r2) (auto simp: entry Let_def l_def h1_def)
    moreover from this have "entry_done w cfg ip move entry h h2"
      using True y yy by (simp add: entry_done_def entry Let_def l_def h1_def)
    ultimately show ?thesis by blast
  qed
  then obtain h2 where
    ed: "entry_done w cfg ip move entry h h2"
    and rest: "send_files w cfg ip move rest h2 = Some (Inr (), h')"
    by blast
  from Cons.IH [OF rest] obtain hs where
    hs: "length hs = length rest + 1" "hs ! 0 = h2" "last hs = h'"
        "\<forall>i<length rest. entry_done w cfg ip move (rest ! i) (hs ! i) (hs ! Suc i)"
    by blast
  from hs(1) have ne: "hs \<noteq> []" by auto
  have "\<forall>i<length (entry # rest).
          entry_done w cfg ip move ((entry # rest) ! i) ((h # hs) ! i) ((h # hs) ! Suc i)"
  proof (intro allI impI)
    fix i
    assume i: "i < length (entry # rest)"
    show "entry_done w cfg ip move ((entry # rest) ! i) ((h # hs) ! i) ((h # hs) ! Suc i)"
    proof (cases i)
      case 0
      with ed hs(2) show ?thesis by simp
    next
      case (Suc j)
      with i hs(4) show ?thesis by simp
    qed
  qed
  moreover have "length (h # hs) = length (entry # rest) + 1 \<and> (h # hs) ! 0 = h
                 \<and> last (h # hs) = h'"
    using hs ne by simp
  ultimately show ?case by blast
qed

lemma wait_for_ssh_ready_True:
  assumes "wait_for_ssh_ready w cfg ip h = Some (Inr b, h')"
  shows "b"
proof (cases "has_paramiko w")
  case True
  with assms have "wait_for_ssh_loop w cfg ip h = Some (Inr b, h')"
    by (simp add: wait_for_ssh_ready_def)
  from wait_for_ssh_loop_returns [OF this] show ?thesis
    by (cases b) auto
next
  case False
  with assms show ?thesis
    by (auto simp: wait_for_ssh_ready_def split: option.splits sum.splits)
qed

lemma process_single_ip_True:
  assumes "process_single_ip w cfg ip fm move h = Some (True, h')"
  shows "\<exists>hs. length hs = length fm + 1 \<and> last hs = h'
             \<and> wait_for_ssh_ready w cfg ip h = Some (Inr True, hs ! 0)
             \<and> (\<forall>i<length fm. entry_done w cfg ip move (fm ! i) (hs ! i) (hs ! Suc i))"
proof -
  from assms obtain b h1 where
    g: "wait_for_ssh_ready w cfg ip h = Some (Inr b, h1)"
    and sf: "send_files w cfg ip move fm h1 = Some (Inr (), h')"
    by (auto simp: process_single_ip_def split: option.splits sum.splits)
  from wait_for_ssh_ready_True [OF g] g have g': "wait_for_ssh_ready w cfg ip h = Some (Inr True, h1)"
    by simp
  from send_files_chain [OF sf] obtain hs where
    "length hs = length fm + 1" "hs ! 0 = h1" "last hs = h'"
    "\<forall>i<length fm. entry_done w cfg ip move (fm ! i) (hs ! i) (hs ! Suc i)"
    by blast
  with g' show ?thesis by blast
qed

subsection \<open>Steps of the orchestrator\<close>

lemma step_Head:
  assumes "pc s = Head"
  shows "step d c s =
           (if card (success_ip s) < length (ip_list d)
               \<and> filter (\<lambda>ip. ip \<notin> success_ip s) (ip_list d) \<noteq> []
            then s\<lparr>retry_round := retry_round s + 1,
                   pc := Round (filter (\<lambda>ip. ip \<notin> success_ip s) (ip_list d))
                           [0..<length (filter (\<lambda>ip. ip \<notin> success_ip s) (ip_list d))]\<rparr>
            else s\<lparr>pc := AfterLoop\<rparr>)"
  using assms by (simp add: step_def Let_def)

lemma step_Round:
  assumes "pc s = Round rem pend"
  shows "step d c s =
           (if pend = [] then s\<lparr>pc := Head\<rparr>
            else if c \<in> set pend
            then (case process_single_ip (worker_world d (retry_round s) c) (dep_config d)
                         (rem ! c) (dep_file_map d) (dep_move_mode d) [] of
                    None \<Rightarrow> s
                  | Some (result, h) \<Rightarrow>
                      (if result
                       then s\<lparr>success_ip := insert (rem ! c) (success_ip s),
                              complete_txt :=
                                record_complete_ip (record_fault d (retry_round s) c)
                                  (rem ! c) (complete_txt s),
                              sent := sent s @ notify_ip_success (dep_config d),
                              pc := Round rem (removeAll c pend)\<rparr>
                       else s\<lparr>pc := Round rem (removeAll c pend)\<rparr>))
            else s)"
  using assms by (simp add: step_def)

lemma step_other:
  assumes "pc s \<noteq> Head" and "\<forall>rem pend. pc s \<noteq> Round rem pend"
  shows "success_ip (step d c s) = success_ip s \<and> complete_txt (step d c s) = complete_txt s
         \<and> (\<forall>rem pend. pc (step d c s) \<noteq> Round rem pend)"
  using assms by (cases "pc s") (simp_all add: step_def)

text \<open>A step either leaves the success set and the ledger alone, or it handles a pending
  future whose worker returned \<open>True\<close>.\<close>

lemma step_cases:
  "(success_ip (step d c s) = success_ip s \<and> complete_txt (step d c s) = complete_txt s)
   \<or> (\<exists>rem pend h. pc s = Round rem pend \<and> c \<in> set pend
         \<and> process_single_ip (worker_world d (retry_round s) c) (dep_config d)
               (rem ! c) (dep_file_map d) (dep_move_mode d) [] = Some (True, h)
         \<and> success_ip (step d c s) = insert (rem ! c) (success_ip s)
         \<and> complete_txt (step d c s)
             = record_complete_ip (record_fault d (retry_round s) c) (rem ! c) (complete_txt s)
         \<and> pc (step d c s) = Round rem (removeAll c pend))"
proof (cases "pc s")
  case Head
  then show ?thesis by (simp add: step_Head)
next
  case (Round rem pend)
  show ?thesis
  proof (cases "pend \<noteq> [] \<and> c \<in> set pend")
    case False
    then show ?thesis using Round by (auto simp: step_Round)
  next
    case True
    show ?thesis
    proof (cases "process_single_ip (worker_world d (retry_round s) c) (dep_config d)
                         (rem ! c) (dep_file_map d) (dep_move_mode d) []")
      case None
      then show ?thesis using Round True by (simp add: step_Round)
    next
      case (Some y)
      obtain result h where y: "y = (result, h)" by (cases y) auto
      show ?thesis
      proof (cases result)
        case False
        then show ?thesis using Round True Some y by (simp add: step_Round)
      next
        case rt: True
        then show ?thesis using Round True Some y by (simp add: step_Round)
      qed
    qed
  qed
next
  case AfterLoop
  then show ?thesis by (simp add: step_def)
next
  case Finished
  then show ?thesis by (simp add: step_def)
next
  case Exit1
  then show ?thesis by (simp add: step_def)
qed

lemma run_Nil: "run d [] = initial d"
  by (simp add: run_def)

lemma run_snoc: "run d (choices @ [c]) = step d c (run d choices)"
  by (simp add: run_def)

lemma round_inv_initial: "round_inv d (initial d)"
  by (simp add: round_inv_def initial_def)

lemma round_inv_step:
  assumes inv: "round_inv d s"
  shows "round_inv d (step d c s)"
proof (cases "pc s")
  case Head
  from inv have sub: "success_ip s \<subseteq> set (ip_list d)" by (simp add: round_inv_def)
  define rem where "rem = filter (\<lambda>ip. ip \<notin> success_ip s) (ip_list d)"
  have "set rem \<union> success_ip s = set (ip_list d)" "set rem \<inter> success_ip s = {}"
    using sub by (auto simp: rem_def)
  then show ?thesis
    using Head sub by (simp add: step_Head round_inv_def rem_def)
next
  case (Round rem pend)
  from inv Round have sub: "success_ip s \<subseteq> set (ip_list d)"
    and un: "set rem \<union> success_ip s = set (ip_list d)"
    and bound: "\<forall>i\<in>set pend. i < length rem"
    and stale: "set rem \<inter> success_ip s \<subseteq> {rem ! i |i. i < length rem \<and> i \<notin> set pend}"
    by (simp_all add: round_inv_def)
  have stale': "set rem \<inter> success_ip s
                  \<subseteq> {rem ! i |i. i < length rem \<and> i \<notin> set (removeAll c pend)}"
    using stale by auto
  show ?thesis
  proof (cases "pend \<noteq> [] \<and> c \<in> set pend")
    case False
    then show ?thesis
      using inv Round by (auto simp: step_Round round_inv_def)
  next
    case True
    then have c: "c < length rem" using bound by simp
    show ?thesis
    proof (cases "process_single_ip (worker_world d (retry_round s) c) (dep_config d)
                         (rem ! c) (dep_file_map d) (dep_move_mode d) []")
      case None
      then show ?thesis using inv Round True by (simp add: step_Round)
    next
      case (Some y)
      obtain result h where y: "y = (result, h)" by (cases y) auto
      show ?thesis
      proof (cases result)
        case False
        then have "step d c s = s\<lparr>pc := Round rem (removeAll c pend)\<rparr>"
          using Round True Some y by (simp add: step_Round)
        then show ?thesis
          using sub un bound stale' by (simp add: round_inv_def)
      next
        case rt: True
        then have st: "success_ip (step d c s) = insert (rem ! c) (success_ip s)"
                      "pc (step d c s) = Round rem (removeAll c pend)"
          using Round True Some y by (simp_all add: step_Round)
        have mem: "rem ! c \<in> set rem" using c by simp
        then have 1: "insert (rem ! c) (success_ip s) \<subseteq> set (ip_list d)"
          using sub un by auto
        have 2: "set rem \<union> insert (rem ! c) (success_ip s) = set (ip_list d)"
          using un mem by auto
        have 3: "\<forall>i\<in>set (removeAll c pend). i < length rem"
          using bound by simp
        have 4: "set rem \<inter> insert (rem ! c) (success_ip s)
                   \<subseteq> {rem ! i |i. i < length rem \<and> i \<notin> set (removeAll c pend)}"
        proof
          fix x
          assume x: "x \<in> set rem \<inter> insert (rem ! c) (success_ip s)"
          show "x \<in> {rem ! i |i. i < length rem \<and> i \<notin> set (removeAll c pend)}"
          proof (cases "x = rem ! c")
            case True
            with c show ?thesis by auto
          next
            case False
            with x have "x \<in> set rem \<inter> success_ip s" by simp
            with stale' show ?thesis by blast
          qed
        qed
        from 1 2 3 4 show ?thesis
          by (simp add: round_inv_def st)
      qed
    qed
  qed
next
  case AfterLoop
  with inv show ?thesis by (simp add: step_def round_inv_def)
next
  case Finished
  with inv show ?thesis by (simp add: step_def round_inv_def)
next
  case Exit1
  with inv show ?thesis by (simp add: step_def round_inv_def)
qed

lemma round_inv_run: "round_inv d (run d choices)"
proof (induction choices rule: rev_induct)
  case Nil
  then show ?case by (simp add: run_Nil round_inv_initial)
next
  case (snoc c choices)
  then show ?case by (simp add: run_snoc round_inv_step)
qed

lemma step_mono: "success_ip s \<subseteq> success_ip (step d c s)"
  using step_cases [of d c s] by auto

lemma step_partition:
  assumes "round_inv d s" and "pc s = Head" and "pc (step d c s) = Round rem pend"
  shows "set rem = set (ip_list d) - success_ip (step d c s)
         \<and> set rem \<inter> success_ip (step d c s) = {}"
proof -
  from assms(1) have sub: "success_ip s \<subseteq> set (ip_list d)" by (simp add: round_inv_def)
  from assms(2,3) have "rem = filter (\<lambda>ip. ip \<notin> success_ip s) (ip_list d)"
    and "success_ip (step d c s) = success_ip s"
    by (auto simp: step_Head split: if_splits)
  then show ?thesis by auto
qed

lemma step_added:
  assumes "ip \<in> success_ip (step d c s)" and "ip \<notin> success_ip s"
  shows "\<exists>rem pend h hs. pc s = Round rem pend \<and> c \<in> set pend \<and> rem ! c = ip
           \<and> process_single_ip (worker_world d (retry_round s) c) (dep_config d) ip
                 (dep_file_map d) (dep_move_mode d) [] = Some (True, h)
           \<and> wait_for_ssh_ready (worker_world d (retry_round s) c) (dep_config d) ip []
               = Some (Inr True, hs ! 0)
           \<and> length hs = length (dep_file_map d) + 1 \<and> last hs = h
           \<and> (\<forall>i<length (dep_file_map d).
                  entry_done (worker_world d (retry_round s) c) (dep_config d) ip
                    (dep_move_mode d) (dep_file_map d ! i) (hs ! i) (hs ! Suc i))"
proof -
  from step_cases [of d c s] assms obtain rem pend h where
    r: "pc s = Round rem pend" "c \<in> set pend"
       "process_single_ip (worker_world d (retry_round s) c) (dep_config d)
               (rem ! c) (dep_file_map d) (dep_move_mode d) [] = Some (True, h)"
       "success_ip (step d c s) = insert (rem ! c) (success_ip s)"
    by auto
  with assms have ip: "rem ! c = ip" by auto
  from process_single_ip_True [OF r(3)] obtain hs where
    "length hs = length (dep_file_map d) + 1" "last hs = h"
    "wait_for_ssh_ready (worker_world d (retry_round s) c) (dep_config d) (rem ! c) []
       = Some (Inr True, hs ! 0)"
    "\<forall>i<length (dep_file_map d).
        entry_done (worker_world d (retry_round s) c) (dep_config d) (rem ! c)
          (dep_move_mode d) (dep_file_map d ! i) (hs ! i) (hs ! Suc i)"
    by blast
  with r ip show ?thesis by blast
qed

theorem stale_remaining_counterexample:
  "pc (run lone_host [0, 0]) = Round [''10.0.0.5''] []
   \<and> ''10.0.0.5'' \<in> success_ip (run lone_host [0, 0])"
  by code_simp

text \<open>
  Claim C1, as the code has it. In every state of the round loop the success set is a
  subset of the host list. Inside a round, \<open>remaining_ip\<close> and the success set together
  cover the host list, and the only hosts of \<open>remaining_ip\<close> that are already in the
  success set are those whose future this round has handled: \<open>remaining_ip\<close> is computed at
  the head of a round and not updated inside it. At the head of each round, where it is
  computed, \<open>remaining_ip\<close> is the host list without the success set and is disjoint from
  it. A step never removes a host from the success set. And a host enters the success set
  only in a step that handles a pending future of the round whose worker returned \<open>True\<close>;
  in that one call the readiness gate \<open>wait_for_ssh_ready\<close> returned \<open>True\<close>, and from
  the history it left the worker went through every manifest entry in order, each either
  absent locally and skipped or sent by \<open>send_single_file\<close> returning \<open>True\<close>.
\<close>

theorem round_loop_invariants:
  "success_ip (run d choices) \<subseteq> set (ip_list d)
   \<and> (\<forall>rem pend. pc (run d choices) = Round rem pend \<longrightarrow>
        set rem \<union> success_ip (run d choices) = set (ip_list d)
        \<and> set rem \<inter> success_ip (run d choices)
            \<subseteq> {rem ! i |i. i < length rem \<and> i \<notin> set pend})
   \<and> (\<forall>rem pend. pc (run d choices) = Head \<and> pc (run d (choices @ [c])) = Round rem pend \<longrightarrow>
        set rem = set (ip_list d) - success_ip (run d (choices @ [c]))
        \<and> set rem \<inter> success_ip (run d (choices @ [c])) = {})
   \<and> success_ip (run d choices) \<subseteq> success_ip (run d (choices @ [c]))
   \<and> (\<forall>ip. ip \<in> success_ip (run d (choices @ [c])) \<and> ip \<notin> success_ip (run d choices) \<longrightarrow>
        (\<exists>rem pend h hs.
            pc (run d choices) = Round rem pend \<and> c \<in> set pend \<and> rem ! c = ip
            \<and> process_single_ip (worker_world d (retry_round (run d choices)) c) (dep_config d)
                 ip (dep_file_map d) (dep_move_mode d) [] = Some (True, h)
            \<and> wait_for_ssh_ready (worker_world d (retry_round (run d choices)) c) (dep_config d)
                 ip [] = Some (Inr True, hs ! 0)
            \<and> length hs = length (dep_file_map d) + 1 \<and> last hs = h
            \<and> (\<forall>i<length (dep_file_map d).
                   entry_done (worker_world d (retry_round (run d choices)) c) (dep_config d) ip
                     (dep_move_mode d) (dep_file_map d ! i) (hs ! i) (hs ! Suc i))))"
proof -
  define s where "s = run d choices"
  have next_state: "run d (choices @ [c]) = step d c s"
    by (simp add: run_snoc s_def)
  have inv: "round_inv d s"
    by (simp add: s_def round_inv_run)
  have A: "success_ip s \<subseteq> set (ip_list d)"
    using inv by (simp add: round_inv_def)
  have B: "\<forall>rem pend. pc s = Round rem pend \<longrightarrow>
        set rem \<union> success_ip s = set (ip_list d)
        \<and> set rem \<inter> success_ip s \<subseteq> {rem ! i |i. i < length rem \<and> i \<notin> set pend}"
    using inv by (auto simp: round_inv_def)
  have C: "\<forall>rem pend. pc s = Head \<and> pc (step d c s) = Round rem pend \<longrightarrow>
        set rem = set (ip_list d) - success_ip (step d c s)
        \<and> set rem \<inter> success_ip (step d c s) = {}"
    using step_partition [OF inv] by blast
  have D: "success_ip s \<subseteq> success_ip (step d c s)"
    by (rule step_mono)
  have E: "\<forall>ip. ip \<in> success_ip (step d c s) \<and> ip \<notin> success_ip s \<longrightarrow>
        (\<exists>rem pend h hs.
            pc s = Round rem pend \<and> c \<in> set pend \<and> rem ! c = ip
            \<and> process_single_ip (worker_world d (retry_round s) c) (dep_config d)
                 ip (dep_file_map d) (dep_move_mode d) [] = Some (True, h)
            \<and> wait_for_ssh_ready (worker_world d (retry_round s) c) (dep_config d)
                 ip [] = Some (Inr True, hs ! 0)
            \<and> length hs = length (dep_file_map d) + 1 \<and> last hs = h
            \<and> (\<forall>i<length (dep_file_map d).
                   entry_done (worker_world d (retry_round s) c) (dep_config d) ip
                     (dep_move_mode d) (dep_file_map d ! i) (hs ! i) (hs ! Suc i)))"
    using step_added [of _ d c s] by blast
  from A B C D E show ?thesis
    unfolding next_state s_def [symmetric] by (intro conjI)
qed

lemma lone_host_round:
  "pc (run lone_host [0]) = Round [''10.0.0.5''] [0]
   \<and> pc (run lone_host []) = Head
   \<and> success_ip (run lone_host [0]) = {}
   \<and> success_ip (run lone_host ([0] @ [0])) = {''10.0.0.5''}
   \<and> ip_list lone_host = [''10.0.0.5'']"
  by code_simp

theorem round_loop_invariants_witness:
  "set [''10.0.0.5''] = set (ip_list lone_host) - success_ip (run lone_host ([] @ [0]))
   \<and> (\<exists>rem pend h hs. pc (run lone_host [0]) = Round rem pend \<and> 0 \<in> set pend
         \<and> rem ! 0 = ''10.0.0.5''
         \<and> process_single_ip (worker_world lone_host (retry_round (run lone_host [0])) 0)
              (dep_config lone_host) ''10.0.0.5'' (dep_file_map lone_host)
              (dep_move_mode lone_host) [] = Some (True, h)
         \<and> wait_for_ssh_ready (worker_world lone_host (retry_round (run lone_host [0])) 0)
              (dep_config lone_host) ''10.0.0.5'' [] = Some (Inr True, hs ! 0)
         \<and> length hs = length (dep_file_map lone_host) + 1 \<and> last hs = h)"
proof
  note c2 = conjunct2
  from round_loop_invariants [of lone_host "[]" 0, THEN c2, THEN c2, THEN conjunct1]
  have "pc (run lone_host []) = Head \<and> pc (run lone_host ([] @ [0])) = Round [''10.0.0.5''] [0]
        \<longrightarrow> set [''10.0.0.5''] = set (ip_list lone_host) - success_ip (run lone_host ([] @ [0]))
            \<and> set [''10.0.0.5''] \<inter> success_ip (run lone_host ([] @ [0])) = {}"
    by blast
  with lone_host_round
  show "set [''10.0.0.5''] = set (ip_list lone_host) - success_ip (run lone_host ([] @ [0]))"
    by simp
next
  note c2 = conjunct2
  have m: "''10.0.0.5'' \<in> success_ip (run lone_host ([0] @ [0]))
           \<and> ''10.0.0.5'' \<notin> success_ip (run lone_host [0])"
    using lone_host_round by simp
  from round_loop_invariants [of lone_host "[0]" 0, THEN c2, THEN c2, THEN c2, THEN c2,
         THEN spec, THEN mp, OF m]
  show "\<exists>rem pend h hs. pc (run lone_host [0]) = Round rem pend \<and> 0 \<in> set pend
         \<and> rem ! 0 = ''10.0.0.5''
         \<and> process_single_ip (worker_world lone_host (retry_round (run lone_host [0])) 0)
              (dep_config lone_host) ''10.0.0.5'' (dep_file_map lone_host)
              (dep_move_mode lone_host) [] = Some (True, h)
         \<and> wait_for_ssh_ready (worker_world lone_host (retry_round (run lone_host [0])) 0)
              (dep_config lone_host) ''10.0.0.5'' [] = Some (Inr True, hs ! 0)
         \<and> length hs = length (dep_file_map lone_host) + 1 \<and> last hs = h"
    by blast
qed

section \<open>Fidelity of the completion ledger\<close>

lemma ip_list_wf:
  "x \<in> set (ip_list d) \<Longrightarrow> x \<noteq> [] \<and> strip x = x \<and> (\<forall>c\<in>set x. \<not> is_newline c)"
  unfolding ip_list_def by (rule read_ip_list_wf)

lemma ledger_step:
  assumes inv: "round_inv d s"
      and nofault: "\<forall>round_no position. record_fault d round_no position = NoFault"
      and ledger: "distinct ips \<and> set ips = success_ip s
                   \<and> complete_txt s = (if ips = [] then None
                        else Some (concat (map (\<lambda>ip. ip @ [CHR 0x0A]) ips)))"
  shows "\<exists>ips'. distinct ips' \<and> set ips' = success_ip (step d c s)
                \<and> complete_txt (step d c s) = (if ips' = [] then None
                     else Some (concat (map (\<lambda>ip. ip @ [CHR 0x0A]) ips')))"
proof -
  from step_cases [of d c s]
  show ?thesis
  proof
    assume "success_ip (step d c s) = success_ip s \<and> complete_txt (step d c s) = complete_txt s"
    with ledger show ?thesis by metis
  next
    assume "\<exists>rem pend h. pc s = Round rem pend \<and> c \<in> set pend
         \<and> process_single_ip (worker_world d (retry_round s) c) (dep_config d)
               (rem ! c) (dep_file_map d) (dep_move_mode d) [] = Some (True, h)
         \<and> success_ip (step d c s) = insert (rem ! c) (success_ip s)
         \<and> complete_txt (step d c s)
             = record_complete_ip (record_fault d (retry_round s) c) (rem ! c) (complete_txt s)
         \<and> pc (step d c s) = Round rem (removeAll c pend)"
    then obtain rem pend where
      r: "pc s = Round rem pend" "c \<in> set pend"
         "success_ip (step d c s) = insert (rem ! c) (success_ip s)"
         "complete_txt (step d c s)
             = record_complete_ip (record_fault d (retry_round s) c) (rem ! c) (complete_txt s)"
      by blast
    define ip where "ip = rem ! c"
    from inv r(1,2) have "c < length rem" and un: "set rem \<union> success_ip s = set (ip_list d)"
      by (simp_all add: round_inv_def)
    then have "ip \<in> set (ip_list d)" by (auto simp: ip_def)
    moreover have "set ips \<subseteq> set (ip_list d)" using ledger un by auto
    ultimately have wf: "\<forall>x\<in>set (ip # ips).
                           x \<noteq> [] \<and> strip x = x \<and> (\<forall>c\<in>set x. \<not> is_newline c)"
      using ip_list_wf by auto
    define ips' where "ips' = (if ip \<in> set ips then ips else ips @ [ip])"
    from ledger have content: "complete_txt s = (if ips = [] then None
                        else Some (concat (map (\<lambda>ip. ip @ [CHR 0x0A]) ips)))"
      by simp
    have "complete_txt (step d c s) = Some (concat (map (\<lambda>ip. ip @ [CHR 0x0A]) ips'))"
      using record_complete_ip_ledger [OF wf content] r(4) nofault
      by (simp add: ip_def ips'_def)
    moreover have "ips' \<noteq> []" by (auto simp: ips'_def)
    moreover have "distinct ips'" using ledger by (simp add: ips'_def)
    moreover have "set ips' = success_ip (step d c s)"
      using ledger r(3) by (auto simp: ips'_def ip_def)
    ultimately show ?thesis by auto
  qed
qed

text \<open>
  Claim C2, as the code has it. Let the startup checks pass and let no operation on
  \<open>complete.txt\<close> raise an \<open>OSError\<close> (removing it at the start, reading it, appending to
  it). Then the ledger is cleared at run start, and in every state of the run, the final
  one included, \<open>complete.txt\<close> consists of one line per successful host: each host of the
  success set appears exactly once and nothing else appears. Without a successful host
  the file does not exist.
\<close>

theorem completion_ledger:
  assumes startup: "file_dir_exists d \<and> ip_list d \<noteq> [] \<and> dep_file_map d \<noteq> []"
      and clear: "\<not> remove_fails d"
      and nofault: "\<forall>round_no position. record_fault d round_no position = NoFault"
  shows "complete_txt (initial d) = None
         \<and> (\<exists>ips. distinct ips \<and> set ips = success_ip (run d choices)
               \<and> complete_txt (run d choices)
                   = (if ips = [] then None
                      else Some (concat (map (\<lambda>ip. ip @ [CHR 0x0A]) ips))))"
proof
  show init: "complete_txt (initial d) = None"
    using startup clear
    by (simp add: initial_def init_complete_file_def split: option.splits)
  show "\<exists>ips. distinct ips \<and> set ips = success_ip (run d choices)
               \<and> complete_txt (run d choices)
                   = (if ips = [] then None
                      else Some (concat (map (\<lambda>ip. ip @ [CHR 0x0A]) ips)))"
  proof (induction choices rule: rev_induct)
    case Nil
    have "success_ip (initial d) = {}"
      by (simp add: initial_def)
    with init have "distinct ([] :: string list) \<and> set [] = success_ip (run d [])
               \<and> complete_txt (run d [])
                   = (if ([] :: string list) = [] then None
                      else Some (concat (map (\<lambda>ip. ip @ [CHR 0x0A]) [])))"
      by (simp add: run_Nil)
    then show ?case by blast
  next
    case (snoc c choices)
    then obtain ips where
      "distinct ips \<and> set ips = success_ip (run d choices)
       \<and> complete_txt (run d choices)
           = (if ips = [] then None else Some (concat (map (\<lambda>ip. ip @ [CHR 0x0A]) ips)))"
      by blast
    from ledger_step [OF round_inv_run nofault this]
    show ?case by (simp add: run_snoc)
  qed
qed

theorem ledger_fault_counterexample:
  "''10.0.0.5'' \<in> success_ip (run append_fails [0, 0, 0, 0, 0])
   \<and> pc (run append_fails [0, 0, 0, 0, 0]) = Finished
   \<and> complete_txt (run append_fails [0, 0, 0, 0, 0]) = None"
  by code_simp

lemma lone_host_finished:
  "pc (run lone_host [0, 0, 0, 0, 0]) = Finished
   \<and> success_ip (run lone_host [0, 0, 0, 0, 0]) = {''10.0.0.5''}
   \<and> complete_txt (run lone_host [0, 0, 0, 0, 0]) = Some (''10.0.0.5'' @ [CHR 0x0A])"
  by code_simp

lemma lone_host_startup:
  "file_dir_exists lone_host \<and> ip_list lone_host \<noteq> [] \<and> dep_file_map lone_host \<noteq> []"
  by code_simp

theorem completion_ledger_witness:
  "complete_txt (initial lone_host) = None
   \<and> (\<exists>ips. distinct ips \<and> set ips = {''10.0.0.5''}
         \<and> Some (''10.0.0.5'' @ [CHR 0x0A])
             = (if ips = [] then None else Some (concat (map (\<lambda>ip. ip @ [CHR 0x0A]) ips))))"
proof -
  have clear: "\<not> remove_fails lone_host"
    by (simp add: lone_host_def)
  have nofault: "\<forall>round_no position. record_fault lone_host round_no position = NoFault"
    by (simp add: lone_host_def)
  from completion_ledger [OF lone_host_startup clear nofault, of "[0, 0, 0, 0, 0]"]
  show ?thesis
    by (simp only: lone_host_finished)
qed

end
